theory Spec2Isabelle
  imports Main "HOL-Library.Word"
begin

section \<open>Mining controller (cmd/kopach/control/controller.go)\<close>

subsection \<open>walletRPCWatcher: the reconnect back-off\<close>

text \<open>
  \<^verbatim>\<open>time.Duration\<close> is a signed 64-bit count of nanoseconds. The back-off never leaves
  the range 1 s .. 6 s (lemma \<open>backoffTime_range\<close> below), so it is modelled as an
  \<open>int\<close>: no operation on it can wrap.
\<close>

type_synonym duration = int

definition Second :: duration where
  "Second = 1000000000"

definition Minute :: duration where
  "Minute = 60 * Second"

text \<open>
  What the watcher observes, one constructor per outcome of a \<^verbatim>\<open>select\<close> or call:
  \<^item> \<open>Kill\<close>: \<^verbatim>\<open>KillAll\<close> is closed at the top of the \<^verbatim>\<open>trying\<close> loop;
  \<^item> \<open>DialFail\<close>: \<^verbatim>\<open>rpcclient.New\<close> fails and the \<^verbatim>\<open>time.After(backoffTime)\<close> timer fires;
  \<^item> \<open>DialFailQuit\<close>: \<^verbatim>\<open>rpcclient.New\<close> fails and \<^verbatim>\<open>quit\<close> closes during the wait;
  \<^item> \<open>DialOk\<close>: \<^verbatim>\<open>rpcclient.New\<close> succeeds;
  \<^item> \<open>Tick d\<close>: the one-second ticker fires while connected, \<^verbatim>\<open>Disconnected()\<close> returns \<open>d\<close>;
  \<^item> \<open>QuitSig\<close>: \<^verbatim>\<open>quit\<close> closes while connected.
\<close>

datatype wevent = Kill | DialFail | DialFailQuit | DialOk | Tick bool | QuitSig

datatype wphase = Trying | Connected | Exited

record watcher =
  backoffTime :: duration
  isMining :: bool
  phase :: wphase

text \<open>\<^verbatim>\<open>backoffTime := time.Second\<close>; \<^verbatim>\<open>Run\<close> stores \<^verbatim>\<open>isMining = true\<close> before the watcher starts.\<close>

definition watcher_init :: watcher where
  "watcher_init = \<lparr>backoffTime = Second, isMining = True, phase = Trying\<rparr>"

text \<open>
  One observation. The second component is the time slept in \<^verbatim>\<open>time.After(backoffTime)\<close>
  before the next attempt, when there is one. An observation that cannot occur in the
  current phase leaves the watcher as it is.
\<close>

fun watcher_step :: "watcher \<Rightarrow> wevent \<Rightarrow> watcher \<times> duration option" where
  "watcher_step w ev =
     (case phase w of
        Exited \<Rightarrow> (w, None)
      | Trying \<Rightarrow>
          (case ev of
             Kill \<Rightarrow> (w\<lparr>phase := Exited\<rparr>, None)
           | DialFail \<Rightarrow>
               (w\<lparr>isMining := False,
                   backoffTime := (if backoffTime w \<le> Second * 5
                                   then backoffTime w + Second else backoffTime w)\<rparr>,
                Some (backoffTime w))
           | DialFailQuit \<Rightarrow> (w\<lparr>isMining := False, phase := Exited\<rparr>, None)
           | DialOk \<Rightarrow> (w\<lparr>isMining := True, backoffTime := Second, phase := Connected\<rparr>, None)
           | _ \<Rightarrow> (w, None))
      | Connected \<Rightarrow>
          (case ev of
             Tick d \<Rightarrow> (if d then (w\<lparr>isMining := False, phase := Trying\<rparr>, None) else (w, None))
           | QuitSig \<Rightarrow> (w\<lparr>isMining := False, phase := Exited\<rparr>, None)
           | _ \<Rightarrow> (w, None)))"

text \<open>The watcher over a sequence of observations, with the list of waits it slept.\<close>

fun walletRPCWatcher :: "watcher \<Rightarrow> wevent list \<Rightarrow> watcher \<times> duration list" where
  "walletRPCWatcher w [] = (w, [])"
| "walletRPCWatcher w (ev # evs) =
     (case watcher_step w ev of
        (w', d) \<Rightarrow>
          (case walletRPCWatcher w' evs of
             (w'', ds) \<Rightarrow> (w'', (case d of None \<Rightarrow> ds | Some x \<Rightarrow> x # ds))))"

subsection \<open>updateAndSendWork\<close>

text \<open>
  \<^verbatim>\<open>oldBlocks\<close> is an \<^verbatim>\<open>atomic.Value\<close>: \<open>None\<close> while nothing was stored (the type assertion
  to \<^verbatim>\<open>[][]byte\<close> fails), \<open>Some shards\<close> afterwards. \<^verbatim>\<open>lastTxUpdate\<close> and \<^verbatim>\<open>lastGenerated\<close>
  hold \<^verbatim>\<open>UnixNano()\<close> values, 64-bit integers. The mempool's \<^verbatim>\<open>LastUpdated()\<close> and the three
  readings of \<^verbatim>\<open>time.Now()\<close> are inputs; an instant is its number of nanoseconds since the
  epoch.
\<close>

type_synonym shards = "8 word list list"

record controller =
  oldBlocks :: "shards option"
  lastTxUpdate :: "64 word"
  lastGenerated :: "64 word"

record work_env =
  txLastUpdated :: "64 word"
  nowCheck :: int
  nowTxUpdate :: int
  nowGenerated :: int

text \<open>The \<^verbatim>\<open>switch\<close> that computes \<^verbatim>\<open>getNew\<close>, case by case in the source's order.\<close>

definition stale :: "controller \<Rightarrow> work_env \<Rightarrow> bool" where
  "stale c e \<longleftrightarrow>
     lastTxUpdate c \<noteq> txLastUpdated e \<and> nowCheck e > sint (lastGenerated c + word_of_int Minute)"

definition getNew :: "controller \<Rightarrow> work_env \<Rightarrow> bool" where
  "getNew c e =
     (case oldBlocks c of
        None \<Rightarrow> True
      | Some oB \<Rightarrow> if length oB = 0 then True else stale c e)"

text \<open>
  The body of \<^verbatim>\<open>if getNew { ... }\<close> is commented out in the source, so \<^verbatim>\<open>oB\<close> is never
  replaced: what is sent and stored back is the value loaded at the top (the nil slice
  when nothing was stored). The result is the controller and the shards handed to
  \<^verbatim>\<open>SendShards\<close>.
\<close>

definition updateAndSendWork :: "controller \<Rightarrow> work_env \<Rightarrow> controller \<times> shards" where
  "updateAndSendWork c e =
     (let oB = (case oldBlocks c of None \<Rightarrow> [] | Some b \<Rightarrow> b);
          c1 = (case oldBlocks c of
                  None \<Rightarrow> c
                | Some b \<Rightarrow>
                    if length b = 0 then c
                    else if stale c e
                    then c\<lparr>lastTxUpdate := word_of_int (nowTxUpdate e),
                           lastGenerated := word_of_int (nowGenerated e)\<rparr>
                    else c)
      in (c1\<lparr>oldBlocks := Some oB\<rparr>, oB))"

section \<open>Connection manager (package connmgr)\<close>

text \<open>
  The connection handler is the single goroutine that owns the maps \<^verbatim>\<open>pending\<close> and
  \<^verbatim>\<open>conns\<close>. Both map a request id to a \<^verbatim>\<open>*ConnReq\<close>; the requests are shared objects,
  mutated through the pointer, so they live in a store indexed by reference. Callbacks
  started with \<^verbatim>\<open>go\<close> and timers started with \<^verbatim>\<open>time.AfterFunc\<close> are recorded as events.
  Durations here are 64-bit words: the product in \<^verbatim>\<open>handleFailedConn\<close> can wrap.
\<close>

datatype ConnState = ConnPending | ConnFailing | ConnCanceled | ConnEstablished | ConnDisconnected

type_synonym ref = nat
type_synonym netconn = nat

record ConnReq =
  reqId :: "64 word"
  Permanent :: bool
  conn :: "netconn option"
  state :: ConnState
  retryCount :: "32 word"

datatype request =
    RegisterPending ref
  | HandleConnected ref "netconn option"
  | HandleDisconnected "64 word" bool
  | HandleFailed ref

datatype cm_event =
    CloseConn netconn
  | OnConnection ref "netconn option"
  | OnDisconnection ref
  | ConnectAfter "64 word" ref
  | NewConnReqAfter "64 word"
  | NewConnReqNow

record ConnManager =
  store :: "ref \<Rightarrow> ConnReq"
  pending :: "64 word \<rightharpoonup> ref"
  conns :: "64 word \<rightharpoonup> ref"
  stop :: bool
  failedAttempts :: "64 word"
  TargetOutbound :: "32 word"
  RetryDuration :: "64 word"
  hasGetNewAddress :: bool
  hasOnConnection :: bool
  hasOnDisconnection :: bool

definition maxFailedAttempts :: "64 word" where
  "maxFailedAttempts = 3"

text \<open>\<^verbatim>\<open>time.Hour\<close> in nanoseconds.\<close>

definition maxRetryDuration :: "64 word" where
  "maxRetryDuration = 3600000000000"

definition updateState :: "ref \<Rightarrow> ConnState \<Rightarrow> ConnManager \<Rightarrow> ConnManager" where
  "updateState r st cm = cm\<lparr>store := (store cm)(r := (store cm r)\<lparr>state := st\<rparr>)\<rparr>"

definition handleFailedConn :: "ConnManager \<Rightarrow> ref \<Rightarrow> ConnManager \<times> cm_event list" where
  "handleFailedConn cm c =
     (if stop cm then (cm, [])
      else if Permanent (store cm c) then
        (let rc = retryCount (store cm c) + 1;
             cm1 = cm\<lparr>store := (store cm)(c := (store cm c)\<lparr>retryCount := rc\<rparr>)\<rparr>;
             d = ucast rc * RetryDuration cm;
             d' = (if sint d > sint maxRetryDuration then maxRetryDuration else d)
         in (cm1, [ConnectAfter d' c]))
      else if hasGetNewAddress cm then
        (let cm1 = cm\<lparr>failedAttempts := failedAttempts cm + 1\<rparr>
         in if failedAttempts cm1 \<ge> maxFailedAttempts
            then (cm1, [NewConnReqAfter (RetryDuration cm)])
            else (cm1, [NewConnReqNow]))
      else (cm, []))"

text \<open>One iteration of the \<^verbatim>\<open>select\<close> loop of \<^verbatim>\<open>connHandler\<close>, for a request received.\<close>

fun connHandler :: "ConnManager \<Rightarrow> request \<Rightarrow> ConnManager \<times> cm_event list" where
  "connHandler cm (RegisterPending c) =
     (let cm1 = updateState c ConnPending cm
      in (cm1\<lparr>pending := (pending cm1)(reqId (store cm1 c) \<mapsto> c)\<rparr>, []))"
| "connHandler cm (HandleConnected c cn) =
     (case pending cm (reqId (store cm c)) of
        None \<Rightarrow> (cm, (case cn of None \<Rightarrow> [] | Some n \<Rightarrow> [CloseConn n]))
      | Some _ \<Rightarrow>
          (let cm1 = updateState c ConnEstablished cm;
               cm2 = cm1\<lparr>store := (store cm1)(c := (store cm1 c)\<lparr>conn := cn\<rparr>)\<rparr>;
               i = reqId (store cm2 c);
               cm3 = cm2\<lparr>conns := (conns cm2)(i \<mapsto> c)\<rparr>;
               cm4 = cm3\<lparr>store := (store cm3)(c := (store cm3 c)\<lparr>retryCount := 0\<rparr>),
                         failedAttempts := 0\<rparr>;
               cm5 = cm4\<lparr>pending := (pending cm4)(i := None)\<rparr>
           in (cm5, if hasOnConnection cm then [OnConnection c cn] else [])))"
| "connHandler cm (HandleDisconnected i retry) =
     (case conns cm i of
        None \<Rightarrow>
          (case pending cm i of
             None \<Rightarrow> (cm, [])
           | Some c \<Rightarrow>
               (let cm1 = updateState c ConnCanceled cm
                in (cm1\<lparr>pending := (pending cm1)(i := None)\<rparr>, [])))
      | Some c \<Rightarrow>
          (let cm1 = cm\<lparr>conns := (conns cm)(i := None)\<rparr>;
               ev1 = (case conn (store cm1 c) of None \<Rightarrow> [] | Some n \<Rightarrow> [CloseConn n]);
               ev2 = (if hasOnDisconnection cm1 then [OnDisconnection c] else [])
           in if \<not> retry then (updateState c ConnDisconnected cm1, ev1 @ ev2)
              else if (word_of_nat (card (dom (conns cm1))) :: 32 word) < TargetOutbound cm1
                      \<or> Permanent (store cm1 c)
              then (let cm2 = updateState c ConnPending cm1;
                        cm3 = cm2\<lparr>pending := (pending cm2)(i \<mapsto> c)\<rparr>
                    in case handleFailedConn cm3 c of (cm4, ev3) \<Rightarrow> (cm4, ev1 @ ev2 @ ev3))
              else (cm1, ev1 @ ev2)))"
| "connHandler cm (HandleFailed c) =
     (case pending cm (reqId (store cm c)) of
        None \<Rightarrow> (cm, [])
      | Some _ \<Rightarrow> handleFailedConn (updateState c ConnFailing cm) c)"

text \<open>
  \<^verbatim>\<open>Disconnect\<close> and \<^verbatim>\<open>Remove\<close> post a request to the handler unless the manager is stopped:
  the result is the request sent, if any.
\<close>

definition Disconnect :: "ConnManager \<Rightarrow> 64 word \<Rightarrow> request option" where
  "Disconnect cm i = (if stop cm then None else Some (HandleDisconnected i True))"

definition Remove :: "ConnManager \<Rightarrow> 64 word \<Rightarrow> request option" where
  "Remove cm i = (if stop cm then None else Some (HandleDisconnected i False))"

text \<open>A call followed by the handler receiving what it posted.\<close>

definition deliver :: "ConnManager \<Rightarrow> request option \<Rightarrow> ConnManager \<times> cm_event list" where
  "deliver cm r = (case r of None \<Rightarrow> (cm, []) | Some q \<Rightarrow> connHandler cm q)"

text \<open>The events that start a new dial: a retry timer or a fresh connection request.\<close>

fun redial :: "cm_event \<Rightarrow> bool" where
  "redial (ConnectAfter d c) = True"
| "redial (NewConnReqAfter d) = True"
| "redial NewConnReqNow = True"
| "redial _ = False"

text \<open>Two managers used as concrete inputs: one established connection, one pending dial.\<close>

definition cm_established :: ConnManager where
  "cm_established =
     \<lparr>store = (\<lambda>r. \<lparr>reqId = 1, Permanent = True, conn = Some 7, state = ConnEstablished, retryCount = 0\<rparr>),
      pending = Map.empty, conns = [1 \<mapsto> 0], stop = False, failedAttempts = 0,
      TargetOutbound = 8, RetryDuration = 5000000000, hasGetNewAddress = True,
      hasOnConnection = True, hasOnDisconnection = True\<rparr>"

definition cm_pending :: ConnManager where
  "cm_pending =
     \<lparr>store = (\<lambda>r. \<lparr>reqId = 1, Permanent = True, conn = None, state = ConnPending, retryCount = 2\<rparr>),
      pending = [1 \<mapsto> 0], conns = Map.empty, stop = False, failedAttempts = 0,
      TargetOutbound = 8, RetryDuration = 5000000000, hasGetNewAddress = True,
      hasOnConnection = True, hasOnDisconnection = True\<rparr>"

section \<open>Sync manager (pkg/netsync/manager.go)\<close>

subsection \<open>Data\<close>

text \<open>
  A \<^verbatim>\<open>chainhash.Hash\<close> is 32 bytes, compared for equality only: it is modelled by the
  number those bytes spell, \<^verbatim>\<open>zeroHash\<close> being 0. A \<^verbatim>\<open>*peerpkg.Peer\<close> is the identity of a
  peer object. Heights are \<^verbatim>\<open>int32\<close>. Headers, transactions and blocks carry what the
  handlers read from them; the functions of the absent \<^verbatim>\<open>blockchain\<close> package that inspect
  them are fields of the environment below.
\<close>

type_synonym hash = nat
type_synonym peer = nat
type_synonym int32 = "32 word"
type_synonym tx = nat
type_synonym locator = "hash list"

definition zeroHash :: hash where
  "zeroHash = 0"

datatype InvType = InvTypeTx | InvTypeBlock | InvTypeOther

record InvVect =
  ivType :: InvType
  ivHash :: hash

record headerNode =
  height :: int32
  hash :: hash

record Checkpoint =
  Height :: int32
  Hash :: hash

record BlockHeader =
  BlockHash :: hash
  PrevBlock :: hash

record Block =
  blockHash :: hash
  Header :: nat
  Transactions :: "tx list"

text \<open>
  The per-peer bookkeeping. Its two maps have the names of the manager's own maps in the
  source; here they carry the prefix \<open>peer\<close>. A Go \<^verbatim>\<open>map[chainhash.Hash]struct{}\<close> is a
  list of keys without duplicates, so that \<^verbatim>\<open>len\<close> is \<open>length\<close>.
\<close>

record peerSyncState =
  syncCandidate :: bool
  requestQueue :: "InvVect list"
  peerRequestedTxns :: "hash list"
  peerRequestedBlocks :: "hash list"

definition insertKey :: "hash \<Rightarrow> hash list \<Rightarrow> hash list" where
  "insertKey h m = (if h \<in> set m then m else h # m)"

definition deleteKey :: "hash \<Rightarrow> hash list \<Rightarrow> hash list" where
  "deleteKey h m = removeAll h m"

text \<open>
  \<^verbatim>\<open>startHeader\<close> points to an element of the \<^verbatim>\<open>container/list\<close> list \<^verbatim>\<open>headerList\<close>.
  \<open>AtIndex i\<close> is the element at position \<open>i\<close> of the list. An element taken out by
  \<^verbatim>\<open>Remove\<close> keeps its value and has no successor; the elements left behind by \<^verbatim>\<open>Init\<close>
  keep their values and their successors: \<open>Unlinked ns\<close> is such an element, \<open>ns\<close> being
  the nodes met from it by \<^verbatim>\<open>Next()\<close>, itself first.
\<close>

datatype startRef = AtIndex nat | Unlinked "headerNode list"

datatype BehaviorFlags = BFNone | BFFastAdd

datatype event =
    Disconnected peer
  | PushRejectMsg peer string hash
  | QueueMessage peer "InvVect list"
  | PushGetBlocksMsg peer locator hash
  | PushGetHeadersMsg peer locator hash
  | UpdateLastBlockHeight peer int32
  | UpdateLastAnnouncedBlock peer hash
  | AddKnownInventory peer InvVect
  | UpdatePeerHeights hash int32 peer
  | AnnounceNewTransactions "tx list"
  | ProcessBlock hash BehaviorFlags int32
  | ProcessTransaction tx
  | LogBlockHeight hash
  | SetLastLogTime

datatype panic = DatabaseCorruption | NilDereference | IndexOutOfRange

record SyncManager =
  MaxInvPerMsg :: nat
  regressionTest :: bool
  shutdown :: bool
  rejectedTxns :: "hash list"
  requestedTxns :: "hash list"
  requestedBlocks :: "hash list"
  syncPeer :: "peer option"
  peerStates :: "peer \<rightharpoonup> peerSyncState"
  headersFirstMode :: bool
  headerList :: "headerNode list"
  startHeader :: "startRef option"
  nextCheckpoint :: "Checkpoint option"
  sent :: "event list"

text \<open>
  \<^verbatim>\<open>MaxInvPerMsg\<close> is a constant of the absent \<^verbatim>\<open>wire\<close> package, carried as a field that no
  handler changes; \<^verbatim>\<open>regressionTest\<close> is \<^verbatim>\<open>chainParams == &chaincfg.RegressionTestParams\<close>;
  \<^verbatim>\<open>sent\<close> records, in order, the calls made on peers, on the chain, on the mempool and on
  the notifier.
\<close>

definition minInFlightBlocks :: nat where
  "minInFlightBlocks = 10"

definition maxRejectedTxns :: nat where
  "maxRejectedTxns = 1000"

definition maxRequestedBlocks :: "SyncManager \<Rightarrow> nat" where
  "maxRequestedBlocks sm = MaxInvPerMsg sm"

definition maxRequestedTxns :: "SyncManager \<Rightarrow> nat" where
  "maxRequestedTxns sm = MaxInvPerMsg sm"

definition emit :: "event \<Rightarrow> SyncManager \<Rightarrow> SyncManager" where
  "emit ev sm = sm\<lparr>sent := sent sm @ [ev]\<rparr>"

subsection \<open>The collaborators\<close>

text \<open>
  The chain, the mempool and the peers are outside the manager. One record holds what
  they answer during one handler call; for a block message the chain's answers are those
  after \<^verbatim>\<open>ProcessBlock\<close>, the only call that changes it, since the handler reads the chain
  only afterwards. A pair \<open>(b, err)\<close> is a Go result \<^verbatim>\<open>(bool, error)\<close>, \<open>err\<close> meaning
  a non-nil error. \<^verbatim>\<open>pick\<close> and \<^verbatim>\<open>peerOrder\<close> stand for the iteration order of Go maps:
  \<^verbatim>\<open>pick k\<close> decides the entry met first by the \<open>k\<close>-th \<^verbatim>\<open>limitMap\<close> of the call, and
  \<^verbatim>\<open>peerOrder\<close> is the order in which \<^verbatim>\<open>range sm.peerStates\<close> yields the peers.
\<close>

datatype utxo = UtxoError | UtxoNil | UtxoSpent | UtxoUnspent

datatype pbError = RuleError | DBCorruption | DBOther | OtherError

datatype pbResult = PBOk bool bool | PBErr pbError

record env =
  bestChainHeight :: int32
  bestSnapshotHeight :: int32
  bestSnapshotHash :: hash
  chainIsCurrent :: bool
  Checkpoints :: "Checkpoint list"
  HaveBlock :: "hash \<Rightarrow> bool \<times> bool"
  HaveTransaction :: "hash \<Rightarrow> bool"
  FetchUtxoEntry :: "hash \<Rightarrow> nat \<Rightarrow> utxo"
  IsKnownOrphan :: "hash \<Rightarrow> bool"
  GetOrphanRoot :: "hash \<Rightarrow> hash"
  LatestBlockLocator :: "locator option"
  BlockLocatorFromHash :: "hash \<Rightarrow> locator"
  BlockHeightByHash :: "hash \<Rightarrow> int32 option"
  ShouldHaveSerializedBlockHeight :: "nat \<Rightarrow> bool"
  ExtractCoinbaseHeight :: "tx \<Rightarrow> int32 option"
  processBlockResult :: pbResult
  processTransactionResult :: "tx list option"
  LastBlock :: "peer \<Rightarrow> int32"
  peerHost :: "peer \<Rightarrow> string option"
  pick :: "nat \<Rightarrow> nat"
  peerOrder :: "peer list"

subsection \<open>Helpers\<close>

text \<open>
  \<^verbatim>\<open>limitMap\<close>: when \<^verbatim>\<open>len(m)+1 > limit\<close>, the first entry that \<^verbatim>\<open>range m\<close> yields is deleted;
  nothing is deleted from an empty map.
\<close>

definition limitMap :: "nat \<Rightarrow> hash list \<Rightarrow> nat \<Rightarrow> hash list" where
  "limitMap p m limit =
     (if length m + 1 > limit
      then (case m of [] \<Rightarrow> m | _ \<Rightarrow> deleteKey (m ! (p mod length m)) m)
      else m)"

definition haveInventory :: "env \<Rightarrow> InvVect \<Rightarrow> bool \<times> bool" where
  "haveInventory e iv =
     (case ivType iv of
        InvTypeBlock \<Rightarrow> HaveBlock e (ivHash iv)
      | InvTypeTx \<Rightarrow>
          if HaveTransaction e (ivHash iv) then (True, False)
          else (case FetchUtxoEntry e (ivHash iv) 0 of
                  UtxoError \<Rightarrow> (False, True)
                | UtxoUnspent \<Rightarrow> (True, False)
                | _ \<Rightarrow>
                    (case FetchUtxoEntry e (ivHash iv) 1 of
                       UtxoError \<Rightarrow> (False, True)
                     | UtxoUnspent \<Rightarrow> (True, False)
                     | _ \<Rightarrow> (False, False)))
      | InvTypeOther \<Rightarrow> (True, False))"

definition current :: "env \<Rightarrow> SyncManager \<Rightarrow> bool" where
  "current e sm =
     (if \<not> chainIsCurrent e then False
      else case syncPeer sm of
             None \<Rightarrow> True
           | Some sp \<Rightarrow> if sint (bestSnapshotHeight e) < sint (LastBlock e sp) then False else True)"

text \<open>
  \<^verbatim>\<open>findNextHeaderCheckpoint\<close>: the loop runs from the last but one checkpoint down to the
  first, so it is a recursion over the reversed list.
\<close>

fun scanCheckpoints :: "int32 \<Rightarrow> Checkpoint list \<Rightarrow> Checkpoint \<Rightarrow> Checkpoint" where
  "scanCheckpoints h [] nc = nc"
| "scanCheckpoints h (c # cs) nc =
     (if sint h \<ge> sint (Height c) then nc else scanCheckpoints h cs c)"

definition findNextHeaderCheckpoint :: "env \<Rightarrow> int32 \<Rightarrow> Checkpoint option" where
  "findNextHeaderCheckpoint e h =
     (case rev (Checkpoints e) of
        [] \<Rightarrow> None
      | finalCheckpoint # earlier \<Rightarrow>
          if sint h \<ge> sint (Height finalCheckpoint) then None
          else Some (scanCheckpoints h earlier finalCheckpoint))"

text \<open>The three list operations the manager uses, with their effect on \<^verbatim>\<open>startHeader\<close>.\<close>

definition listInit :: "SyncManager \<Rightarrow> SyncManager" where
  "listInit sm =
     sm\<lparr>headerList := [],
        startHeader := (case startHeader sm of
                          Some (AtIndex i) \<Rightarrow> Some (Unlinked (drop i (headerList sm)))
                        | other \<Rightarrow> other)\<rparr>"

definition listPushBack :: "headerNode \<Rightarrow> SyncManager \<Rightarrow> SyncManager" where
  "listPushBack n sm = sm\<lparr>headerList := headerList sm @ [n]\<rparr>"

definition listRemoveFront :: "SyncManager \<Rightarrow> SyncManager" where
  "listRemoveFront sm =
     sm\<lparr>headerList := tl (headerList sm),
        startHeader := (case startHeader sm of
                          Some (AtIndex 0) \<Rightarrow> Some (Unlinked (take 1 (headerList sm)))
                        | Some (AtIndex (Suc i)) \<Rightarrow> Some (AtIndex i)
                        | other \<Rightarrow> other)\<rparr>"

definition resetHeaderState :: "hash \<Rightarrow> int32 \<Rightarrow> SyncManager \<Rightarrow> SyncManager" where
  "resetHeaderState newestHash newestHeight sm =
     (let sm1 = (listInit (sm\<lparr>headersFirstMode := False\<rparr>))\<lparr>startHeader := None\<rparr>
      in case nextCheckpoint sm1 of
           None \<Rightarrow> sm1
         | Some _ \<Rightarrow> listPushBack \<lparr>height = newestHeight, hash = newestHash\<rparr> sm1)"

definition isSyncCandidate :: "env \<Rightarrow> SyncManager \<Rightarrow> peer \<Rightarrow> bool" where
  "isSyncCandidate e sm p =
     (if regressionTest sm
      then (case peerHost e p of
              None \<Rightarrow> False
            | Some host \<Rightarrow> \<not> (host \<noteq> ''127.0.0.1'' \<and> host \<noteq> ''localhost''))
      else True)"

subsection \<open>startSync and fetchHeaderBlocks\<close>

text \<open>
  The \<^verbatim>\<open>range\<close> loop of \<^verbatim>\<open>startSync\<close> has no \<^verbatim>\<open>break\<close>: every eligible candidate overwrites
  \<^verbatim>\<open>bestPeer\<close>, so the peer kept is the last eligible one in iteration order.
\<close>

fun pickBestPeer :: "env \<Rightarrow> SyncManager \<Rightarrow> peer list \<Rightarrow> peer option \<Rightarrow> peer option" where
  "pickBestPeer e sm [] bestPeer = bestPeer"
| "pickBestPeer e sm (p # ps) bestPeer =
     (case peerStates sm p of
        None \<Rightarrow> pickBestPeer e sm ps bestPeer
      | Some st \<Rightarrow>
          if \<not> syncCandidate st then pickBestPeer e sm ps bestPeer
          else if sint (LastBlock e p) < sint (bestSnapshotHeight e) then pickBestPeer e sm ps bestPeer
          else pickBestPeer e sm ps (Some p))"

definition startSync :: "env \<Rightarrow> SyncManager \<Rightarrow> SyncManager" where
  "startSync e sm =
     (case syncPeer sm of
        Some _ \<Rightarrow> sm
      | None \<Rightarrow>
          (case pickBestPeer e sm (peerOrder e) None of
             None \<Rightarrow> sm
           | Some bestPeer \<Rightarrow>
               (let sm1 = sm\<lparr>requestedBlocks := []\<rparr>
                in case LatestBlockLocator e of
                     None \<Rightarrow> sm1
                   | Some loc \<Rightarrow>
                       (let sm2 =
                              (case nextCheckpoint sm1 of
                                 None \<Rightarrow> emit (PushGetBlocksMsg bestPeer loc zeroHash) sm1
                               | Some cp \<Rightarrow>
                                   if sint (bestSnapshotHeight e) < sint (Height cp)
                                      \<and> \<not> regressionTest sm1
                                   then (emit (PushGetHeadersMsg bestPeer loc (Hash cp)) sm1)
                                          \<lparr>headersFirstMode := True\<rparr>
                                   else emit (PushGetBlocksMsg bestPeer loc zeroHash) sm1)
                        in sm2\<lparr>syncPeer := Some bestPeer\<rparr>))))"

text \<open>
  One iteration of the loop of \<^verbatim>\<open>fetchHeaderBlocks\<close>, for the node under \<^verbatim>\<open>sh\<close>: the new
  \<^verbatim>\<open>numRequested\<close>, the \<^verbatim>\<open>getdata\<close> and the manager. The global map is written before
  \<^verbatim>\<open>syncPeerState\<close> is dereferenced; no \<^verbatim>\<open>limitMap\<close> follows the insertion. \<^verbatim>\<open>AddInvVect\<close>
  appends: its capacity error cannot arise, the loop stopping at \<^verbatim>\<open>MaxInvPerMsg\<close> requests.
\<close>

definition fetchNode ::
  "env \<Rightarrow> headerNode \<Rightarrow> nat \<Rightarrow> InvVect list \<Rightarrow> SyncManager
     \<Rightarrow> panic + (nat \<times> InvVect list \<times> SyncManager)" where
  "fetchNode e node numRequested gdmsg sm =
     (let iv = \<lparr>ivType = InvTypeBlock, ivHash = hash node\<rparr>
      in if fst (haveInventory e iv) then Inr (numRequested, gdmsg, sm)
         else
           (let sm1 = sm\<lparr>requestedBlocks := insertKey (hash node) (requestedBlocks sm)\<rparr>
            in case syncPeer sm1 of
                 None \<Rightarrow> Inl NilDereference
               | Some sp \<Rightarrow>
                   (case peerStates sm1 sp of
                      None \<Rightarrow> Inl NilDereference
                    | Some st \<Rightarrow>
                        Inr (numRequested + 1, gdmsg @ [iv],
                             sm1\<lparr>peerStates := (peerStates sm1)(sp \<mapsto>
                                    st\<lparr>peerRequestedBlocks :=
                                         insertKey (hash node) (peerRequestedBlocks st)\<rparr>)\<rparr>))))"

text \<open>
  The loop over the nodes met from \<^verbatim>\<open>startHeader\<close>; it returns the nodes not visited with
  the message and the manager.
\<close>

fun fetchLoop ::
  "env \<Rightarrow> headerNode list \<Rightarrow> nat \<Rightarrow> InvVect list \<Rightarrow> SyncManager
     \<Rightarrow> panic + (headerNode list \<times> InvVect list \<times> SyncManager)" where
  "fetchLoop e [] numRequested gdmsg sm = Inr ([], gdmsg, sm)"
| "fetchLoop e (node # rest) numRequested gdmsg sm =
     (case fetchNode e node numRequested gdmsg sm of
        Inl x \<Rightarrow> Inl x
      | Inr (numRequested', gdmsg', sm') \<Rightarrow>
          if numRequested' \<ge> MaxInvPerMsg sm then Inr (rest, gdmsg', sm')
          else fetchLoop e rest numRequested' gdmsg' sm')"

definition fetchHeaderBlocks :: "env \<Rightarrow> SyncManager \<Rightarrow> panic + SyncManager" where
  "fetchHeaderBlocks e sm =
     (case startHeader sm of
        None \<Rightarrow> Inr sm
      | Some r \<Rightarrow>
          (let ns = (case r of AtIndex i \<Rightarrow> drop i (headerList sm) | Unlinked l \<Rightarrow> l)
           in case fetchLoop e ns 0 [] sm of
                Inl x \<Rightarrow> Inl x
              | Inr (rest, gdmsg, sm1) \<Rightarrow>
                  (let sm2 = sm1\<lparr>startHeader :=
                                  (if rest = [] then None
                                   else (case r of
                                           AtIndex i \<Rightarrow> Some (AtIndex (i + (length ns - length rest)))
                                         | Unlinked _ \<Rightarrow> Some (Unlinked rest)))\<rparr>
                   in if length gdmsg > 0
                      then (case syncPeer sm2 of
                              None \<Rightarrow> Inl NilDereference
                            | Some sp \<Rightarrow> Inr (emit (QueueMessage sp gdmsg) sm2))
                      else Inr sm2)))"

subsection \<open>Peers arriving and leaving\<close>

definition handleNewPeerMsg :: "env \<Rightarrow> peer \<Rightarrow> SyncManager \<Rightarrow> SyncManager" where
  "handleNewPeerMsg e p sm =
     (if shutdown sm then sm
      else
        (let c = isSyncCandidate e sm p;
             sm1 = sm\<lparr>peerStates := (peerStates sm)(p \<mapsto>
                        \<lparr>syncCandidate = c, requestQueue = [],
                         peerRequestedTxns = [], peerRequestedBlocks = []\<rparr>)\<rparr>
         in if c \<and> syncPeer sm1 = None then startSync e sm1 else sm1))"

definition handleDonePeerMsg :: "env \<Rightarrow> peer \<Rightarrow> SyncManager \<Rightarrow> SyncManager" where
  "handleDonePeerMsg e p sm =
     (case peerStates sm p of
        None \<Rightarrow> sm
      | Some st \<Rightarrow>
          (let sm1 = sm\<lparr>peerStates := (peerStates sm)(p := None)\<rparr>;
               sm2 = sm1\<lparr>requestedTxns := fold deleteKey (peerRequestedTxns st) (requestedTxns sm1)\<rparr>;
               sm3 = sm2\<lparr>requestedBlocks :=
                            fold deleteKey (peerRequestedBlocks st) (requestedBlocks sm2)\<rparr>
           in if syncPeer sm3 = Some p
              then (let sm4 = sm3\<lparr>syncPeer := None\<rparr>;
                        sm5 = (if headersFirstMode sm4
                               then resetHeaderState (bestSnapshotHash e) (bestSnapshotHeight e) sm4
                               else sm4)
                    in startSync e sm5)
              else sm3))"

subsection \<open>handleHeadersMsg\<close>

datatype headersOutcome = Returned | ReceivedCheckpoint | NoCheckpoint

text \<open>
  One iteration of the loop over the received headers: \<open>Some\<close> outcome when the loop is
  left (by \<^verbatim>\<open>return\<close> after a disconnect, or by \<^verbatim>\<open>break\<close> at the checkpoint), \<open>None\<close> when it
  goes on to the next header.
\<close>

definition linkHeader ::
  "peer \<Rightarrow> BlockHeader \<Rightarrow> SyncManager \<Rightarrow> panic + (headersOutcome option \<times> SyncManager)" where
  "linkHeader p blockHeader sm =
     (case headerList sm of
        [] \<Rightarrow> Inr (Some Returned, emit (Disconnected p) sm)
      | _ # _ \<Rightarrow>
          (let prevNode = last (headerList sm)
           in if hash prevNode = PrevBlock blockHeader
              then
                (let node = \<lparr>height = height prevNode + 1, hash = BlockHash blockHeader\<rparr>;
                     sm1 = listPushBack node sm;
                     sm2 = (case startHeader sm1 of
                              None \<Rightarrow> sm1\<lparr>startHeader := Some (AtIndex (length (headerList sm)))\<rparr>
                            | Some _ \<Rightarrow> sm1)
                 in case nextCheckpoint sm2 of
                      None \<Rightarrow> Inl NilDereference
                    | Some cp \<Rightarrow>
                        if height node = Height cp
                        then (if hash node = Hash cp
                              then Inr (Some ReceivedCheckpoint, sm2)
                              else Inr (Some Returned, emit (Disconnected p) sm2))
                        else Inr (None, sm2))
              else Inr (Some Returned, emit (Disconnected p) sm)))"

fun headersLoop ::
  "peer \<Rightarrow> BlockHeader list \<Rightarrow> SyncManager \<Rightarrow> panic + (headersOutcome \<times> SyncManager)" where
  "headersLoop p [] sm = Inr (NoCheckpoint, sm)"
| "headersLoop p (blockHeader # rest) sm =
     (case linkHeader p blockHeader sm of
        Inl x \<Rightarrow> Inl x
      | Inr (Some outcome, sm') \<Rightarrow> Inr (outcome, sm')
      | Inr (None, sm') \<Rightarrow> headersLoop p rest sm')"

definition handleHeadersMsg ::
  "env \<Rightarrow> peer \<Rightarrow> BlockHeader list \<Rightarrow> SyncManager \<Rightarrow> panic + SyncManager" where
  "handleHeadersMsg e p headers sm =
     (case peerStates sm p of
        None \<Rightarrow> Inr sm
      | Some _ \<Rightarrow>
          if \<not> headersFirstMode sm then Inr (emit (Disconnected p) sm)
          else if length headers = 0 then Inr sm
          else
            (case headersLoop p headers sm of
               Inl x \<Rightarrow> Inl x
             | Inr (Returned, sm1) \<Rightarrow> Inr sm1
             | Inr (ReceivedCheckpoint, sm1) \<Rightarrow>
                 (case headerList sm1 of
                    [] \<Rightarrow> Inl NilDereference
                  | _ # _ \<Rightarrow> fetchHeaderBlocks e (emit SetLastLogTime (listRemoveFront sm1)))
             | Inr (NoCheckpoint, sm1) \<Rightarrow>
                 (case nextCheckpoint sm1 of
                    None \<Rightarrow> Inl NilDereference
                  | Some cp \<Rightarrow>
                      Inr (emit (PushGetHeadersMsg p [BlockHash (last headers)] (Hash cp)) sm1))))"

subsection \<open>handleBlockMsg\<close>

text \<open>
  \<^verbatim>\<open>Transactions()[0]\<close> under \<^verbatim>\<open>ShouldHaveSerializedBlockHeight\<close>: the index is not guarded, so
  an empty transaction list is the run-time panic "index out of range". The result is the
  height extracted from the coinbase, \<open>None\<close> when the header does not call for one or
  the extraction fails.
\<close>

definition coinbaseHeight :: "env \<Rightarrow> Block \<Rightarrow> panic + int32 option" where
  "coinbaseHeight e b =
     (if ShouldHaveSerializedBlockHeight e (Header b)
      then (case Transactions b of
              [] \<Rightarrow> Inl IndexOutOfRange
            | coinbaseTx # _ \<Rightarrow> Inr (ExtractCoinbaseHeight e coinbaseTx))
      else Inr None)"

text \<open>
  The headers-first test on the first node of \<^verbatim>\<open>headerList\<close>: the result is
  \<^verbatim>\<open>isCheckpointBlock\<close>, \<^verbatim>\<open>behaviorFlags\<close> and the manager.
\<close>

definition checkFirstNode :: "Block \<Rightarrow> SyncManager \<Rightarrow> panic + (bool \<times> BehaviorFlags \<times> SyncManager)" where
  "checkFirstNode b sm =
     (if headersFirstMode sm
      then (case headerList sm of
              [] \<Rightarrow> Inr (False, BFNone, sm)
            | firstNode # _ \<Rightarrow>
                if blockHash b = hash firstNode
                then (case nextCheckpoint sm of
                        None \<Rightarrow> Inl NilDereference
                      | Some cp \<Rightarrow>
                          if hash firstNode = Hash cp then Inr (True, BFFastAdd, sm)
                          else Inr (False, BFFastAdd, listRemoveFront sm))
                else Inr (False, BFNone, sm))
      else Inr (False, BFNone, sm))"

text \<open>A write through the \<^verbatim>\<open>state\<close> pointer of a tracked peer.\<close>

definition updPeer :: "peer \<Rightarrow> (peerSyncState \<Rightarrow> peerSyncState) \<Rightarrow> SyncManager \<Rightarrow> SyncManager" where
  "updPeer p f sm =
     (case peerStates sm p of
        None \<Rightarrow> sm
      | Some st \<Rightarrow> sm\<lparr>peerStates := (peerStates sm)(p \<mapsto> f st)\<rparr>)"

text \<open>The end of the handler in headers-first mode, for the checkpoint block.\<close>

definition checkpointReached :: "env \<Rightarrow> peer \<Rightarrow> Block \<Rightarrow> SyncManager \<Rightarrow> panic + SyncManager" where
  "checkpointReached e pp b sm =
     (case nextCheckpoint sm of
        None \<Rightarrow> Inl NilDereference
      | Some cp \<Rightarrow>
          (let prevHeight = Height cp;
               prevHash = Hash cp;
               sm1 = sm\<lparr>nextCheckpoint := findNextHeaderCheckpoint e prevHeight\<rparr>
           in case nextCheckpoint sm1 of
                Some ncp \<Rightarrow> Inr (emit (PushGetHeadersMsg pp [prevHash] (Hash ncp)) sm1)
              | None \<Rightarrow>
                  Inr (emit (PushGetBlocksMsg pp [blockHash b] zeroHash)
                         (listInit (sm1\<lparr>headersFirstMode := False\<rparr>)))))"

text \<open>
  After \<^verbatim>\<open>ProcessBlock\<close>, when the handler has not returned on its error. First the branch
  on \<^verbatim>\<open>isOrphan\<close>: the result is \<^verbatim>\<open>heightUpdate\<close>, \<^verbatim>\<open>blkHashUpdate\<close> and the manager.
\<close>

definition reportBlock ::
  "env \<Rightarrow> peer \<Rightarrow> Block \<Rightarrow> bool \<Rightarrow> int32 \<Rightarrow> hash option \<Rightarrow> SyncManager
     \<Rightarrow> panic + (int32 \<times> hash option \<times> SyncManager)" where
  "reportBlock e pp b isOrphan heightUpdate blkHashUpdate sm =
     (if isOrphan
      then (case coinbaseHeight e b of
              Inl x \<Rightarrow> Inl x
            | Inr r \<Rightarrow>
                Inr ((case r of None \<Rightarrow> heightUpdate | Some cbHeight \<Rightarrow> cbHeight),
                     (case r of None \<Rightarrow> blkHashUpdate | Some _ \<Rightarrow> Some (blockHash b)),
                     (case LatestBlockLocator e of
                        None \<Rightarrow> sm
                      | Some loc \<Rightarrow>
                          emit (PushGetBlocksMsg pp loc (GetOrphanRoot e (blockHash b))) sm)))
      else Inr (bestSnapshotHeight e, Some (bestSnapshotHash e),
                (emit (LogBlockHeight (blockHash b)) sm)\<lparr>rejectedTxns := []\<rparr>))"

text \<open>The update of the peer's height, under \<^verbatim>\<open>blkHashUpdate != nil && heightUpdate != 0\<close>.\<close>

definition updatePeerHeight ::
  "env \<Rightarrow> peer \<Rightarrow> bool \<Rightarrow> int32 \<Rightarrow> hash option \<Rightarrow> SyncManager \<Rightarrow> SyncManager" where
  "updatePeerHeight e pp isOrphan heightUpdate blkHashUpdate sm =
     (case blkHashUpdate of
        None \<Rightarrow> sm
      | Some bh \<Rightarrow>
          if heightUpdate \<noteq> 0
          then (let sm' = emit (UpdateLastBlockHeight pp heightUpdate) sm
                in if isOrphan \<or> current e sm'
                   then emit (UpdatePeerHeights bh heightUpdate pp) sm'
                   else sm')
          else sm)"

text \<open>From "Nothing more to do if we aren't in headers-first mode" to the end.\<close>

definition headersFirstNext ::
  "env \<Rightarrow> peer \<Rightarrow> Block \<Rightarrow> bool \<Rightarrow> SyncManager \<Rightarrow> panic + SyncManager" where
  "headersFirstNext e pp b isCheckpointBlock sm =
     (if \<not> headersFirstMode sm then Inr sm
      else if \<not> isCheckpointBlock
      then (if startHeader sm \<noteq> None
               \<and> (case peerStates sm pp of
                     None \<Rightarrow> False
                   | Some st \<Rightarrow> length (peerRequestedBlocks st) < minInFlightBlocks)
            then fetchHeaderBlocks e sm
            else Inr sm)
      else checkpointReached e pp b sm)"

definition afterProcessBlock ::
  "env \<Rightarrow> peer \<Rightarrow> Block \<Rightarrow> bool \<Rightarrow> bool \<Rightarrow> int32 \<Rightarrow> hash option \<Rightarrow> SyncManager
     \<Rightarrow> panic + SyncManager" where
  "afterProcessBlock e pp b isOrphan isCheckpointBlock heightUpdate blkHashUpdate sm =
     (case reportBlock e pp b isOrphan heightUpdate blkHashUpdate sm of
        Inl x \<Rightarrow> Inl x
      | Inr (heightUpdate', blkHashUpdate', sm1) \<Rightarrow>
          headersFirstNext e pp b isCheckpointBlock
            (updatePeerHeight e pp isOrphan heightUpdate' blkHashUpdate' sm1))"

text \<open>"Remove block from request maps": the peer's own map, then the global one.\<close>

definition removeRequest :: "peer \<Rightarrow> hash \<Rightarrow> SyncManager \<Rightarrow> SyncManager" where
  "removeRequest pp h sm =
     (updPeer pp (\<lambda>st. st\<lparr>peerRequestedBlocks := deleteKey h (peerRequestedBlocks st)\<rparr>) sm)
       \<lparr>requestedBlocks := deleteKey h (requestedBlocks sm)\<rparr>"

text \<open>The handler from its second comment on: the block was requested, or the chain is the
  regression-test chain.\<close>

definition processPeerBlock :: "env \<Rightarrow> peer \<Rightarrow> Block \<Rightarrow> SyncManager \<Rightarrow> panic + SyncManager" where
  "processPeerBlock e pp b sm =
     (case checkFirstNode b sm of
        Inl x \<Rightarrow> Inl x
      | Inr (isCheckpointBlock, behaviorFlags, sm1) \<Rightarrow>
          (let sm2 = removeRequest pp (blockHash b) sm1
           in case coinbaseHeight e b of
                Inl x \<Rightarrow> Inl x
              | Inr r \<Rightarrow>
                  (let heightUpdate = (case r of None \<Rightarrow> 0 | Some cbHeight \<Rightarrow> cbHeight);
                       blkHashUpdate = (case r of None \<Rightarrow> None | Some _ \<Rightarrow> Some (blockHash b));
                       sm3 = emit (ProcessBlock (blockHash b) behaviorFlags heightUpdate) sm2
                   in case processBlockResult e of
                        PBErr err \<Rightarrow>
                          if sint (heightUpdate + 1) \<le> sint (bestChainHeight e)
                          then (if err = DBCorruption then Inl DatabaseCorruption
                                else Inr (emit (PushRejectMsg pp ''block'' (blockHash b)) sm3))
                          else afterProcessBlock e pp b True isCheckpointBlock
                                 heightUpdate blkHashUpdate sm3
                      | PBOk isMainChain isOrphan \<Rightarrow>
                          afterProcessBlock e pp b isOrphan isCheckpointBlock
                            heightUpdate blkHashUpdate sm3)))"

definition handleBlockMsg :: "env \<Rightarrow> peer \<Rightarrow> Block \<Rightarrow> SyncManager \<Rightarrow> panic + SyncManager" where
  "handleBlockMsg e pp b sm =
     (case peerStates sm pp of
        None \<Rightarrow> Inr sm
      | Some st \<Rightarrow>
          if blockHash b \<notin> set (peerRequestedBlocks st) \<and> \<not> regressionTest sm
          then Inr (emit (Disconnected pp) sm)
          else processPeerBlock e pp b sm)"

text \<open>
  The \<^verbatim>\<open>processBlockMsg\<close> case of \<^verbatim>\<open>blockHandler\<close>, the path of \<^verbatim>\<open>SyncManager.ProcessBlock\<close>: the
  height passed to the chain. Here the transaction list is tested before it is indexed,
  and the transaction read is the last one.
\<close>

definition processBlockMsgHeight :: "env \<Rightarrow> Block \<Rightarrow> int32" where
  "processBlockMsgHeight e b =
     (if ShouldHaveSerializedBlockHeight e (Header b)
      then (if length (Transactions b) > 0
            then (case ExtractCoinbaseHeight e (last (Transactions b)) of
                    None \<Rightarrow> 0
                  | Some cbHeight \<Rightarrow> cbHeight)
            else 0)
      else 0)"

definition processBlockMsg :: "env \<Rightarrow> Block \<Rightarrow> BehaviorFlags \<Rightarrow> SyncManager \<Rightarrow> SyncManager" where
  "processBlockMsg e b flags sm =
     emit (ProcessBlock (blockHash b) flags (processBlockMsgHeight e b)) sm"

subsection \<open>handleInvMsg\<close>

text \<open>The index of the last block entry of the inventory list, \<open>None\<close> for the source's -1.\<close>

definition lastBlockIndex :: "InvVect list \<Rightarrow> nat option" where
  "lastBlockIndex invVects =
     (case filter (\<lambda>i. ivType (invVects ! i) = InvTypeBlock) [0..<length invVects] of
        [] \<Rightarrow> None
      | i # is \<Rightarrow> Some (last (i # is)))"

text \<open>One iteration of the loop over the advertised inventory, \<open>i\<close> being the index.\<close>

definition invStep :: "env \<Rightarrow> peer \<Rightarrow> nat option \<Rightarrow> nat \<times> InvVect \<Rightarrow> SyncManager \<Rightarrow> SyncManager" where
  "invStep e p lastBlock x sm =
     (case x of (i, iv) \<Rightarrow>
        if ivType iv = InvTypeOther then sm
        else
          (let sm1 = emit (AddKnownInventory p iv) sm
           in if headersFirstMode sm1 then sm1
              else
                (case haveInventory e iv of (haveInv, err) \<Rightarrow>
                   if err then sm1
                   else if \<not> haveInv
                   then (if ivType iv = InvTypeTx \<and> ivHash iv \<in> set (rejectedTxns sm1) then sm1
                         else updPeer p (\<lambda>st. st\<lparr>requestQueue := requestQueue st @ [iv]\<rparr>) sm1)
                   else if ivType iv = InvTypeBlock
                   then (if IsKnownOrphan e (ivHash iv)
                         then (case LatestBlockLocator e of
                                 None \<Rightarrow> sm1
                               | Some loc \<Rightarrow>
                                   emit (PushGetBlocksMsg p loc (GetOrphanRoot e (ivHash iv))) sm1)
                         else if lastBlock = Some i
                         then emit (PushGetBlocksMsg p (BlockLocatorFromHash e (ivHash iv)) zeroHash) sm1
                         else sm1)
                   else sm1)))"

text \<open>
  One iteration of the loop that empties the request queue into one \<^verbatim>\<open>getdata\<close>, for the
  entry just popped. The entry is stored in the global map first and \<^verbatim>\<open>limitMap\<close> runs on
  the map that already holds it.
\<close>

definition requestEntry ::
  "env \<Rightarrow> peer \<Rightarrow> InvVect \<Rightarrow> nat \<Rightarrow> InvVect list \<Rightarrow> SyncManager
     \<Rightarrow> nat \<times> InvVect list \<times> SyncManager" where
  "requestEntry e p iv numRequested gdmsg sm =
     (case ivType iv of
        InvTypeBlock \<Rightarrow>
          if ivHash iv \<notin> set (requestedBlocks sm)
          then (numRequested + 1, gdmsg @ [iv],
                updPeer p (\<lambda>st. st\<lparr>peerRequestedBlocks :=
                                      insertKey (ivHash iv) (peerRequestedBlocks st)\<rparr>)
                  (sm\<lparr>requestedBlocks :=
                        limitMap (pick e numRequested)
                          (insertKey (ivHash iv) (requestedBlocks sm)) (maxRequestedBlocks sm)\<rparr>))
          else (numRequested, gdmsg, sm)
      | InvTypeTx \<Rightarrow>
          if ivHash iv \<notin> set (requestedTxns sm)
          then (numRequested + 1, gdmsg @ [iv],
                updPeer p (\<lambda>st. st\<lparr>peerRequestedTxns :=
                                      insertKey (ivHash iv) (peerRequestedTxns st)\<rparr>)
                  (sm\<lparr>requestedTxns :=
                        limitMap (pick e numRequested)
                          (insertKey (ivHash iv) (requestedTxns sm)) (maxRequestedTxns sm)\<rparr>))
          else (numRequested, gdmsg, sm)
      | InvTypeOther \<Rightarrow> (numRequested, gdmsg, sm))"

text \<open>The loop: the result is the queue left, the message and the manager.\<close>

fun drainQueue ::
  "env \<Rightarrow> peer \<Rightarrow> InvVect list \<Rightarrow> nat \<Rightarrow> InvVect list \<Rightarrow> SyncManager
     \<Rightarrow> InvVect list \<times> InvVect list \<times> SyncManager" where
  "drainQueue e p [] numRequested gdmsg sm = ([], gdmsg, sm)"
| "drainQueue e p (iv # requestQueue') numRequested gdmsg sm =
     (case requestEntry e p iv numRequested gdmsg sm of
        (numRequested', gdmsg', sm') \<Rightarrow>
          if numRequested' \<ge> MaxInvPerMsg sm then (requestQueue', gdmsg', sm')
          else drainQueue e p requestQueue' numRequested' gdmsg' sm')"

text \<open>
  The stages of the handler around its two loops: the last advertised block is recorded
  for the peer, the peer's height is refreshed from it, and at the end the request queue
  is emptied into a \<^verbatim>\<open>getdata\<close> that is queued when it is not empty.
\<close>

definition noteLastBlock ::
  "env \<Rightarrow> peer \<Rightarrow> InvVect list \<Rightarrow> nat option \<Rightarrow> SyncManager \<Rightarrow> SyncManager" where
  "noteLastBlock e p invVects lastBlock sm =
     (case lastBlock of
        None \<Rightarrow> sm
      | Some i \<Rightarrow>
          if Some p \<noteq> syncPeer sm \<or> current e sm
          then emit (UpdateLastAnnouncedBlock p (ivHash (invVects ! i))) sm
          else sm)"

definition notePeerHeight ::
  "env \<Rightarrow> peer \<Rightarrow> InvVect list \<Rightarrow> nat option \<Rightarrow> SyncManager \<Rightarrow> SyncManager" where
  "notePeerHeight e p invVects lastBlock sm =
     (case lastBlock of
        None \<Rightarrow> sm
      | Some i \<Rightarrow>
          if current e sm
          then (case BlockHeightByHash e (ivHash (invVects ! i)) of
                  None \<Rightarrow> sm
                | Some blkHeight \<Rightarrow> emit (UpdateLastBlockHeight p blkHeight) sm)
          else sm)"

definition sendGetData :: "env \<Rightarrow> peer \<Rightarrow> SyncManager \<Rightarrow> SyncManager" where
  "sendGetData e p sm =
     (case peerStates sm p of
        None \<Rightarrow> sm
      | Some st \<Rightarrow>
          (case drainQueue e p (requestQueue st) 0 [] sm of
             (requestQueue', gdmsg, sm1) \<Rightarrow>
               (let sm2 = updPeer p (\<lambda>st. st\<lparr>requestQueue := requestQueue'\<rparr>) sm1
                in if length gdmsg > 0 then emit (QueueMessage p gdmsg) sm2 else sm2)))"

definition handleInvMsg :: "env \<Rightarrow> peer \<Rightarrow> InvVect list \<Rightarrow> SyncManager \<Rightarrow> SyncManager" where
  "handleInvMsg e p invVects sm =
     (case peerStates sm p of
        None \<Rightarrow> sm
      | Some _ \<Rightarrow>
          (let lastBlock = lastBlockIndex invVects;
               sm1 = noteLastBlock e p invVects lastBlock sm
           in if Some p \<noteq> syncPeer sm1 \<and> \<not> current e sm1 then sm1
              else sendGetData e p
                     (fold (invStep e p lastBlock) (zip [0..<length invVects] invVects)
                        (notePeerHeight e p invVects lastBlock sm1))))"

subsection \<open>handleTxMsg\<close>

text \<open>A transaction message is read through its hash only.\<close>

definition handleTxMsg :: "env \<Rightarrow> peer \<Rightarrow> hash \<Rightarrow> SyncManager \<Rightarrow> SyncManager" where
  "handleTxMsg e p txHash sm =
     (case peerStates sm p of
        None \<Rightarrow> sm
      | Some _ \<Rightarrow>
          if txHash \<in> set (rejectedTxns sm) then sm
          else
            (let sm1 = emit (ProcessTransaction txHash) sm;
                 sm2 = (updPeer p (\<lambda>st. st\<lparr>peerRequestedTxns :=
                                              deleteKey txHash (peerRequestedTxns st)\<rparr>) sm1)
                         \<lparr>requestedTxns := deleteKey txHash (requestedTxns sm1)\<rparr>
             in case processTransactionResult e of
                  None \<Rightarrow>
                    emit (PushRejectMsg p ''tx'' txHash)
                      (sm2\<lparr>rejectedTxns :=
                             limitMap (pick e 0) (insertKey txHash (rejectedTxns sm2)) maxRejectedTxns\<rparr>)
                | Some acceptedTxs \<Rightarrow> emit (AnnounceNewTransactions acceptedTxs) sm2))"

subsection \<open>The dispatch loop\<close>

datatype message =
    NewPeerMsg peer
  | TxMsg hash peer
  | BlockMsg Block peer
  | InvMsg "InvVect list" peer
  | HeadersMsg "BlockHeader list" peer
  | DonePeerMsg peer
  | ProcessBlockMsg Block BehaviorFlags
  | GetSyncPeerMsg
  | IsCurrentMsg
  | PauseMsg

text \<open>One message taken from \<^verbatim>\<open>msgChan\<close> by \<^verbatim>\<open>blockHandler\<close>; a panic ends the goroutine.\<close>

fun blockHandler :: "env \<Rightarrow> message \<Rightarrow> SyncManager \<Rightarrow> panic + SyncManager" where
  "blockHandler e (NewPeerMsg p) sm = Inr (handleNewPeerMsg e p sm)"
| "blockHandler e (TxMsg h p) sm = Inr (handleTxMsg e p h sm)"
| "blockHandler e (BlockMsg b p) sm = handleBlockMsg e p b sm"
| "blockHandler e (InvMsg invVects p) sm = Inr (handleInvMsg e p invVects sm)"
| "blockHandler e (HeadersMsg headers p) sm = handleHeadersMsg e p headers sm"
| "blockHandler e (DonePeerMsg p) sm = Inr (handleDonePeerMsg e p sm)"
| "blockHandler e (ProcessBlockMsg b flags) sm = Inr (processBlockMsg e b flags sm)"
| "blockHandler e GetSyncPeerMsg sm = Inr sm"
| "blockHandler e IsCurrentMsg sm = Inr sm"
| "blockHandler e PauseMsg sm = Inr sm"

text \<open>
  \<^verbatim>\<open>New\<close>: the manager before any message, for a chain at \<^verbatim>\<open>BestSnapshot\<close> with checkpoints
  enabled or not.
\<close>

definition New :: "env \<Rightarrow> nat \<Rightarrow> bool \<Rightarrow> bool \<Rightarrow> SyncManager" where
  "New e maxInv regtest disableCheckpoints =
     (let sm = \<lparr>MaxInvPerMsg = maxInv, regressionTest = regtest, shutdown = False,
                rejectedTxns = [], requestedTxns = [], requestedBlocks = [],
                syncPeer = None, peerStates = Map.empty, headersFirstMode = False,
                headerList = [], startHeader = None, nextCheckpoint = None, sent = []\<rparr>
      in if \<not> disableCheckpoints
         then (let sm1 = sm\<lparr>nextCheckpoint := findNextHeaderCheckpoint e (bestSnapshotHeight e)\<rparr>
               in case nextCheckpoint sm1 of
                    None \<Rightarrow> sm1
                  | Some _ \<Rightarrow> resetHeaderState (bestSnapshotHash e) (bestSnapshotHeight e) sm1)
         else sm)"

subsection \<open>Predicates used in the statements\<close>

text \<open>
  \<open>appended P sm sm'\<close>: the calls recorded in \<open>sm'\<close> are those of \<open>sm\<close> followed by calls
  that all satisfy \<open>P\<close>. \<open>quiet\<close> holds of every call but a disconnect and a reject.
\<close>

definition appended :: "(event \<Rightarrow> bool) \<Rightarrow> SyncManager \<Rightarrow> SyncManager \<Rightarrow> bool" where
  "appended P sm sm' \<longleftrightarrow> (\<exists>evs. sent sm' = sent sm @ evs \<and> list_all P evs)"

fun quiet :: "event \<Rightarrow> bool" where
  "quiet (Disconnected p) = False"
| "quiet (PushRejectMsg p c h) = False"
| "quiet _ = True"

text \<open>The invariant of the specification: what a peer owes is in the global map.\<close>

definition contained :: "SyncManager \<Rightarrow> bool" where
  "contained sm \<longleftrightarrow>
     (\<forall>p st. peerStates sm p = Some st \<longrightarrow>
        set (peerRequestedBlocks st) \<subseteq> set (requestedBlocks sm))"

text \<open>A tracked peer that \<^verbatim>\<open>startSync\<close> does not skip.\<close>

definition eligible :: "env \<Rightarrow> SyncManager \<Rightarrow> peer \<Rightarrow> bool" where
  "eligible e sm p =
     (case peerStates sm p of
        None \<Rightarrow> False
      | Some st \<Rightarrow> syncCandidate st \<and> \<not> sint (LastBlock e p) < sint (bestSnapshotHeight e))"

subsection \<open>Concrete inputs\<close>

text \<open>
  A chain at its genesis block (height 0) that answers every block with a rule error,
  knows no block or transaction and has no checkpoints.
\<close>

definition env0 :: env where
  "env0 = \<lparr>bestChainHeight = 0, bestSnapshotHeight = 0, bestSnapshotHash = 1000,
     chainIsCurrent = False, Checkpoints = [], HaveBlock = (\<lambda>h. (False, False)),
     HaveTransaction = (\<lambda>h. False), FetchUtxoEntry = (\<lambda>h i. UtxoNil),
     IsKnownOrphan = (\<lambda>h. False), GetOrphanRoot = (\<lambda>h. h),
     LatestBlockLocator = Some [1000], BlockLocatorFromHash = (\<lambda>h. [h]),
     BlockHeightByHash = (\<lambda>h. None), ShouldHaveSerializedBlockHeight = (\<lambda>v. 2 \<le> v),
     ExtractCoinbaseHeight = (\<lambda>t. None), processBlockResult = PBErr RuleError,
     processTransactionResult = None, LastBlock = (\<lambda>p. 0), peerHost = (\<lambda>p. None),
     pick = (\<lambda>k. 0), peerOrder = [1, 2]\<rparr>"

text \<open>A manager in normal mode whose sync peer 1 owes block 7.\<close>

definition sm0 :: SyncManager where
  "sm0 = \<lparr>MaxInvPerMsg = 50000, regressionTest = False, shutdown = False,
     rejectedTxns = [], requestedTxns = [], requestedBlocks = [7],
     syncPeer = Some 1,
     peerStates = [1 \<mapsto> \<lparr>syncCandidate = True, requestQueue = [],
                            peerRequestedTxns = [], peerRequestedBlocks = [7]\<rparr>],
     headersFirstMode = False, headerList = [], startHeader = None,
     nextCheckpoint = None, sent = []\<rparr>"

text \<open>A manager in headers-first mode: the stored tip at height 0, the next checkpoint at height 2.\<close>

definition sm_hf :: SyncManager where
  "sm_hf = \<lparr>MaxInvPerMsg = 50000, regressionTest = False, shutdown = False,
     rejectedTxns = [], requestedTxns = [], requestedBlocks = [],
     syncPeer = Some 1,
     peerStates = [1 \<mapsto> \<lparr>syncCandidate = True, requestQueue = [],
                            peerRequestedTxns = [], peerRequestedBlocks = []\<rparr>],
     headersFirstMode = True, headerList = [\<lparr>height = 0, hash = 1000\<rparr>], startHeader = None,
     nextCheckpoint = Some \<lparr>Height = 2, Hash = 1002\<rparr>, sent = []\<rparr>"

text \<open>A manager without a sync peer that tracks two sync candidates, 1 and 2.\<close>

definition sm_two :: SyncManager where
  "sm_two = \<lparr>MaxInvPerMsg = 50000, regressionTest = False, shutdown = False,
     rejectedTxns = [], requestedTxns = [], requestedBlocks = [],
     syncPeer = None,
     peerStates = [1 \<mapsto> \<lparr>syncCandidate = True, requestQueue = [],
                            peerRequestedTxns = [], peerRequestedBlocks = []\<rparr>,
                   2 \<mapsto> \<lparr>syncCandidate = True, requestQueue = [],
                            peerRequestedTxns = [], peerRequestedBlocks = []\<rparr>],
     headersFirstMode = False, headerList = [], startHeader = None,
     nextCheckpoint = None, sent = []\<rparr>"

text \<open>
  A manager in the middle of a headers-first download: block \<open>i\<close> has hash \<open>i\<close> and height
  \<open>i + 1\<close>, the checkpoint is block 50009, blocks 0 .. 9 are in flight at the sync peer 1 and
  the headers of blocks 10 .. 50009 wait behind \<^verbatim>\<open>startHeader\<close>. The chain of \<open>env_accept\<close>
  accepts the block it is given.
\<close>

definition nodeOf :: "nat \<Rightarrow> headerNode" where
  "nodeOf i = \<lparr>height = word_of_nat i + 1, hash = i\<rparr>"

definition sm_refill :: SyncManager where
  "sm_refill = \<lparr>MaxInvPerMsg = 50000, regressionTest = False, shutdown = False,
     rejectedTxns = [], requestedTxns = [], requestedBlocks = [0..<10],
     syncPeer = Some 1,
     peerStates = [1 \<mapsto> \<lparr>syncCandidate = True, requestQueue = [],
                            peerRequestedTxns = [], peerRequestedBlocks = [0..<10]\<rparr>],
     headersFirstMode = True, headerList = nodeOf 0 # map nodeOf [1..<50010],
     startHeader = Some (AtIndex 10),
     nextCheckpoint = Some \<lparr>Height = 50010, Hash = 50009\<rparr>, sent = []\<rparr>"

definition env_accept :: env where
  "env_accept = env0\<lparr>processBlockResult := PBOk True False\<rparr>"

text \<open>
  \<open>queued p k sm sm'\<close>: from \<open>sm\<close> to \<open>sm'\<close> nothing changed in the block request maps, and
  the request queue of peer \<open>p\<close> grew by \<open>k\<close> entries at most.
\<close>

definition queued :: "peer \<Rightarrow> nat \<Rightarrow> SyncManager \<Rightarrow> SyncManager \<Rightarrow> bool" where
  "queued p k sm sm' \<longleftrightarrow>
     requestedBlocks sm' = requestedBlocks sm \<and> MaxInvPerMsg sm' = MaxInvPerMsg sm
     \<and> (\<forall>q. q \<noteq> p \<longrightarrow> peerStates sm' q = peerStates sm q)
     \<and> (case peerStates sm p of
           None \<Rightarrow> peerStates sm' p = None
         | Some st \<Rightarrow>
             (\<exists>st'. peerStates sm' p = Some st'
                \<and> peerRequestedBlocks st' = peerRequestedBlocks st
                \<and> length (requestQueue st') \<le> length (requestQueue st) + k))"

text \<open>A manager synchronised with peer 1 while peer 2, a sync candidate, owes block 5.\<close>

definition sm_c :: SyncManager where
  "sm_c = \<lparr>MaxInvPerMsg = 50000, regressionTest = False, shutdown = False,
     rejectedTxns = [], requestedTxns = [], requestedBlocks = [5],
     syncPeer = Some 1,
     peerStates = [1 \<mapsto> \<lparr>syncCandidate = True, requestQueue = [],
                            peerRequestedTxns = [], peerRequestedBlocks = []\<rparr>,
                   2 \<mapsto> \<lparr>syncCandidate = True, requestQueue = [],
                            peerRequestedTxns = [], peerRequestedBlocks = [5]\<rparr>],
     headersFirstMode = False, headerList = [], startHeader = None,
     nextCheckpoint = None, sent = []\<rparr>"

section \<open>Properties of the mining controller\<close>

lemma watcher_step_range:
  assumes "Second \<le> backoffTime w" "backoffTime w \<le> 6 * Second"
  shows "Second \<le> backoffTime (fst (watcher_step w ev)) \<and>
         backoffTime (fst (watcher_step w ev)) \<le> 6 * Second"
  using assms by (auto simp: Second_def split: wphase.splits wevent.splits)

lemma backoffTime_range:
  assumes "Second \<le> backoffTime w" "backoffTime w \<le> 6 * Second"
  shows "Second \<le> backoffTime (fst (walletRPCWatcher w evs)) \<and>
         backoffTime (fst (walletRPCWatcher w evs)) \<le> 6 * Second"
  using assms
proof (induction evs arbitrary: w)
  case Nil
  then show ?case by simp
next
  case (Cons ev evs)
  obtain w' d where st: "watcher_step w ev = (w', d)" by (cases "watcher_step w ev")
  have r: "Second \<le> backoffTime w' \<and> backoffTime w' \<le> 6 * Second"
    using watcher_step_range [OF Cons.prems, of ev] st by simp
  obtain w'' ds where rest: "walletRPCWatcher w' evs = (w'', ds)"
    by (cases "walletRPCWatcher w' evs")
  have "Second \<le> backoffTime w'' \<and> backoffTime w'' \<le> 6 * Second"
    using Cons.IH [of w'] r rest by simp
  then show ?case using st rest by simp
qed

text \<open>
  The waits of \<open>k\<close> consecutive failures, starting from a back-off of \<open>b\<close> seconds in the
  \<^verbatim>\<open>trying\<close> loop: the \<open>i\<close>-th wait is \<open>min (b + i) 6\<close> seconds, because the guard
  \<^verbatim>\<open>backoffTime <= time.Second*5\<close> still holds at five seconds.
\<close>

lemma consecutive_failures:
  assumes "phase w = Trying" "backoffTime w = int b * Second" "1 \<le> b" "b \<le> 6"
  shows "snd (walletRPCWatcher w (replicate k DialFail)) =
         map (\<lambda>i. int (min (b + i) 6) * Second) [0..<k]"
  using assms
proof (induction k arbitrary: w b)
  case 0
  then show ?case by simp
next
  case (Suc k)
  define w' where "w' = fst (watcher_step w DialFail)"
  have st: "watcher_step w DialFail = (w', Some (int b * Second))"
    using Suc.prems by (simp add: w'_def)
  have ph: "phase w' = Trying" using Suc.prems by (simp add: w'_def)
  have bk: "backoffTime w' = int (min (b + 1) 6) * Second"
    using Suc.prems by (auto simp: w'_def Second_def min_def)
  have ih: "snd (walletRPCWatcher w' (replicate k DialFail)) =
            map (\<lambda>i. int (min (min (b + 1) 6 + i) 6) * Second) [0..<k]"
    using Suc.IH [OF ph bk] by simp
  have shift: "map (\<lambda>i. int (min (min (b + 1) 6 + i) 6) * Second) [0..<k] =
               map (\<lambda>i. int (min (b + Suc i) 6) * Second) [0..<k]"
    by (rule map_cong) (auto simp: min_def)
  have "snd (walletRPCWatcher w (replicate (Suc k) DialFail)) =
        int b * Second # snd (walletRPCWatcher w' (replicate k DialFail))"
    using st by (simp split: prod.splits)
  also have "\<dots> = int (min (b + 0) 6) * Second # map (\<lambda>i. int (min (b + Suc i) 6) * Second) [0..<k]"
    using ih shift Suc.prems by (simp add: min_def)
  also have "\<dots> = map (\<lambda>i. int (min (b + i) 6) * Second) (0 # map Suc [0..<k])"
    by (simp add: comp_def)
  also have "0 # map Suc [0..<k] = [0..<Suc k]"
    by (simp add: upt_conv_Cons map_Suc_upt del: upt_Suc)
  finally show ?case .
qed

text \<open>
  C7 (code defect). The claim bounds the wait by five seconds; the source's guard is
  \<^verbatim>\<open>backoffTime <= time.Second*5\<close>, so the back-off is still incremented at five seconds:
  six consecutive failures sleep 1, 2, 3, 4, 5 and 6 seconds, and the back-off then stays
  at six seconds.
\<close>

theorem walletRPCWatcher_sixth_wait:
  "walletRPCWatcher watcher_init (replicate 6 DialFail) =
     (\<lparr>backoffTime = 6 * Second, isMining = False, phase = Trying\<rparr>,
      [1 * Second, 2 * Second, 3 * Second, 4 * Second, 5 * Second, 6 * Second])
   \<and> 6 * Second > 5 * Second"
  by (simp add: watcher_init_def Second_def numeral_eq_Suc)

text \<open>
  C8 (code defect). With a non-empty cached shard set, a mempool timestamp that has moved
  and more than a minute since the last generation, \<^verbatim>\<open>getNew\<close> is set and both timestamps
  are refreshed, but the regeneration under \<^verbatim>\<open>if getNew\<close> is commented out: the shards
  sent and stored are the old ones.
\<close>

theorem updateAndSendWork_stale_resends_old:
  "getNew \<lparr>oldBlocks = Some [[1, 2], [3]], lastTxUpdate = 5, lastGenerated = 0\<rparr>
          \<lparr>txLastUpdated = 7, nowCheck = 2 * Minute, nowTxUpdate = 2 * Minute, nowGenerated = 2 * Minute\<rparr>
   \<and> updateAndSendWork
        \<lparr>oldBlocks = Some [[1, 2], [3]], lastTxUpdate = 5, lastGenerated = 0\<rparr>
        \<lparr>txLastUpdated = 7, nowCheck = 2 * Minute, nowTxUpdate = 2 * Minute, nowGenerated = 2 * Minute\<rparr>
     = (\<lparr>oldBlocks = Some [[1, 2], [3]], lastTxUpdate = word_of_int (2 * Minute),
         lastGenerated = word_of_int (2 * Minute)\<rparr>, [[1, 2], [3]])"
  by (simp add: getNew_def updateAndSendWork_def stale_def Minute_def Second_def Let_def)

section \<open>Properties of the connection manager\<close>

text \<open>
  C6 as stated fails. \<^verbatim>\<open>Remove\<close> posts \<^verbatim>\<open>handleDisconnected{id, false}\<close>; for an id found in
  \<^verbatim>\<open>conns\<close> the handler ends in \<^verbatim>\<open>connReq.updateState(ConnDisconnected)\<close>: an established
  connection that is removed becomes Disconnected, not Canceled.
\<close>

theorem Remove_established_not_canceled:
  "state (store (fst (deliver cm_established (Remove cm_established 1))) 0) = ConnDisconnected
   \<and> state (store (fst (deliver cm_established (Remove cm_established 1))) 0) \<noteq> ConnCanceled"
  by (simp add: cm_established_def Remove_def deliver_def updateState_def)

text \<open>
  C6, amended. On a manager that is not stopped, \<^verbatim>\<open>Remove(id)\<close> is terminal in both cases
  and starts no new dial. An established connection leaves \<^verbatim>\<open>conns\<close>, is closed when it
  holds a connection, is reported to \<^verbatim>\<open>OnDisconnection\<close> when that callback is set, and
  becomes Disconnected; these are all the calls made and the state of the request is all
  that changes in the store. A request that is only pending leaves \<^verbatim>\<open>pending\<close> and
  becomes Canceled, with no call made. An unknown id changes nothing. Once the id is in
  neither map, a late dial result for it (\<^verbatim>\<open>handleConnected\<close> or \<^verbatim>\<open>handleFailed\<close>) changes
  nothing and schedules no retry.
\<close>

theorem Remove_terminal:
  assumes "\<not> stop cm" and "deliver cm (Remove cm i) = (cm', evs)"
  shows "(\<forall>c. conns cm i = Some c \<longrightarrow>
            state (store cm' c) = ConnDisconnected \<and> conns cm' = (conns cm)(i := None)
            \<and> pending cm' = pending cm
            \<and> store cm' = (store cm)(c := (store cm c)\<lparr>state := ConnDisconnected\<rparr>)
            \<and> evs = (case conn (store cm c) of None \<Rightarrow> [] | Some n \<Rightarrow> [CloseConn n])
                    @ (if hasOnDisconnection cm then [OnDisconnection c] else []))
       \<and> (\<forall>c. conns cm i = None \<and> pending cm i = Some c \<longrightarrow>
            state (store cm' c) = ConnCanceled \<and> pending cm' = (pending cm)(i := None)
            \<and> conns cm' = conns cm \<and> evs = []
            \<and> store cm' = (store cm)(c := (store cm c)\<lparr>state := ConnCanceled\<rparr>))
       \<and> (conns cm i = None \<and> pending cm i = None \<longrightarrow> cm' = cm \<and> evs = [])
       \<and> failedAttempts cm' = failedAttempts cm
       \<and> (\<forall>e \<in> set evs. \<not> redial e)
       \<and> conns cm' i = None
       \<and> (\<forall>c cn. reqId (store cm' c) = i \<and> pending cm' i = None \<longrightarrow>
            fst (connHandler cm' (HandleConnected c cn)) = cm'
            \<and> (\<forall>e \<in> set (snd (connHandler cm' (HandleConnected c cn))). \<not> redial e)
            \<and> connHandler cm' (HandleFailed c) = (cm', []))"
  using assms
  by (auto simp: Remove_def deliver_def updateState_def Let_def split: option.splits if_splits)

theorem Remove_terminal_witness:
  "\<not> stop cm_pending
   \<and> state (store (fst (deliver cm_pending (Remove cm_pending 1))) 0) = ConnCanceled
   \<and> pending (fst (deliver cm_pending (Remove cm_pending 1))) 1 = None
   \<and> connHandler (fst (deliver cm_pending (Remove cm_pending 1))) (HandleFailed 0)
       = (fst (deliver cm_pending (Remove cm_pending 1)), [])
   \<and> \<not> stop cm_established
   \<and> state (store (fst (deliver cm_established (Remove cm_established 1))) 0) = ConnDisconnected
   \<and> conns (fst (deliver cm_established (Remove cm_established 1))) 1 = None
   \<and> snd (deliver cm_established (Remove cm_established 1)) = [CloseConn 7, OnDisconnection 0]"
proof -
  have h: "\<not> stop cm_pending" by (simp add: cm_pending_def)
  obtain cm' evs where d: "deliver cm_pending (Remove cm_pending 1) = (cm', evs)"
    by (cases "deliver cm_pending (Remove cm_pending 1)")
  have c: "conns cm_pending 1 = None \<and> pending cm_pending 1 = Some 0"
    by (simp add: cm_pending_def)
  have r: "reqId (store cm' 0) = 1"
    using d by (auto simp: cm_pending_def Remove_def deliver_def updateState_def)
  have p: "state (store cm' 0) = ConnCanceled \<and> pending cm' 1 = None
           \<and> connHandler cm' (HandleFailed 0) = (cm', [])"
    using Remove_terminal [OF h d] c r by auto
  have h2: "\<not> stop cm_established" by (simp add: cm_established_def)
  obtain cm2 evs2 where d2: "deliver cm_established (Remove cm_established 1) = (cm2, evs2)"
    by (cases "deliver cm_established (Remove cm_established 1)")
  have c2: "conns cm_established 1 = Some 0" "conn (store cm_established 0) = Some 7"
    "hasOnDisconnection cm_established"
    by (simp_all add: cm_established_def)
  have q: "state (store cm2 0) = ConnDisconnected \<and> conns cm2 1 = None
           \<and> evs2 = [CloseConn 7, OnDisconnection 0]"
    using Remove_terminal [OF h2 d2] c2 by auto
  from p q h h2 d d2 show ?thesis by simp
qed

section \<open>Properties of the sync manager\<close>

subsection \<open>What each stage leaves unchanged\<close>

lemma emit_fields [simp]:
  "sent (emit ev sm) = sent sm @ [ev]"
  "MaxInvPerMsg (emit ev sm) = MaxInvPerMsg sm"
  "regressionTest (emit ev sm) = regressionTest sm"
  "shutdown (emit ev sm) = shutdown sm"
  "rejectedTxns (emit ev sm) = rejectedTxns sm"
  "requestedTxns (emit ev sm) = requestedTxns sm"
  "requestedBlocks (emit ev sm) = requestedBlocks sm"
  "syncPeer (emit ev sm) = syncPeer sm"
  "peerStates (emit ev sm) = peerStates sm"
  "headersFirstMode (emit ev sm) = headersFirstMode sm"
  "headerList (emit ev sm) = headerList sm"
  "startHeader (emit ev sm) = startHeader sm"
  "nextCheckpoint (emit ev sm) = nextCheckpoint sm"
  by (simp_all add: emit_def)

lemma updPeer_fields [simp]:
  "sent (updPeer p f sm) = sent sm"
  "MaxInvPerMsg (updPeer p f sm) = MaxInvPerMsg sm"
  "regressionTest (updPeer p f sm) = regressionTest sm"
  "shutdown (updPeer p f sm) = shutdown sm"
  "rejectedTxns (updPeer p f sm) = rejectedTxns sm"
  "requestedTxns (updPeer p f sm) = requestedTxns sm"
  "requestedBlocks (updPeer p f sm) = requestedBlocks sm"
  "syncPeer (updPeer p f sm) = syncPeer sm"
  "headersFirstMode (updPeer p f sm) = headersFirstMode sm"
  "headerList (updPeer p f sm) = headerList sm"
  "startHeader (updPeer p f sm) = startHeader sm"
  "nextCheckpoint (updPeer p f sm) = nextCheckpoint sm"
  by (simp_all add: updPeer_def split: option.splits)

lemma updPeer_peerStates:
  "peerStates (updPeer p f sm) q =
     (if q = p then map_option f (peerStates sm p) else peerStates sm q)"
  by (simp add: updPeer_def split: option.splits)

lemma listRemoveFront_fields [simp]:
  "sent (listRemoveFront sm) = sent sm"
  "MaxInvPerMsg (listRemoveFront sm) = MaxInvPerMsg sm"
  "regressionTest (listRemoveFront sm) = regressionTest sm"
  "rejectedTxns (listRemoveFront sm) = rejectedTxns sm"
  "requestedTxns (listRemoveFront sm) = requestedTxns sm"
  "requestedBlocks (listRemoveFront sm) = requestedBlocks sm"
  "syncPeer (listRemoveFront sm) = syncPeer sm"
  "peerStates (listRemoveFront sm) = peerStates sm"
  "headersFirstMode (listRemoveFront sm) = headersFirstMode sm"
  "nextCheckpoint (listRemoveFront sm) = nextCheckpoint sm"
  by (simp_all add: listRemoveFront_def)

lemma listInit_fields [simp]:
  "sent (listInit sm) = sent sm"
  "MaxInvPerMsg (listInit sm) = MaxInvPerMsg sm"
  "regressionTest (listInit sm) = regressionTest sm"
  "rejectedTxns (listInit sm) = rejectedTxns sm"
  "requestedTxns (listInit sm) = requestedTxns sm"
  "requestedBlocks (listInit sm) = requestedBlocks sm"
  "syncPeer (listInit sm) = syncPeer sm"
  "peerStates (listInit sm) = peerStates sm"
  "headersFirstMode (listInit sm) = headersFirstMode sm"
  "nextCheckpoint (listInit sm) = nextCheckpoint sm"
  by (simp_all add: listInit_def)

lemma listPushBack_fields [simp]:
  "sent (listPushBack n sm) = sent sm"
  "MaxInvPerMsg (listPushBack n sm) = MaxInvPerMsg sm"
  "regressionTest (listPushBack n sm) = regressionTest sm"
  "rejectedTxns (listPushBack n sm) = rejectedTxns sm"
  "requestedTxns (listPushBack n sm) = requestedTxns sm"
  "requestedBlocks (listPushBack n sm) = requestedBlocks sm"
  "syncPeer (listPushBack n sm) = syncPeer sm"
  "peerStates (listPushBack n sm) = peerStates sm"
  "headersFirstMode (listPushBack n sm) = headersFirstMode sm"
  "nextCheckpoint (listPushBack n sm) = nextCheckpoint sm"
  "startHeader (listPushBack n sm) = startHeader sm"
  "headerList (listPushBack n sm) = headerList sm @ [n]"
  by (simp_all add: listPushBack_def)

lemma appended_refl [simp]: "appended P sm sm"
  by (simp add: appended_def)

lemma appended_same: "sent sm' = sent sm \<Longrightarrow> appended P sm sm'"
  by (simp add: appended_def)

lemma appended_trans: "appended P a b \<Longrightarrow> appended P b c \<Longrightarrow> appended P a c"
  by (auto simp: appended_def)

lemma appended_emit: "P ev \<Longrightarrow> appended P sm sm' \<Longrightarrow> appended P sm (emit ev sm')"
  by (auto simp: appended_def)

lemma appended_sent: "appended P sm sm' \<Longrightarrow> sent sm'' = sent sm' \<Longrightarrow> appended P sm sm''"
  by (auto simp: appended_def)


text \<open>\<^verbatim>\<open>fetchHeaderBlocks\<close> records one \<^verbatim>\<open>getdata\<close> at most and touches the request maps only.\<close>

lemma fetchNode_frame:
  "fetchNode e node n gd sm = Inr (n', gd', sm') \<Longrightarrow>
     sent sm' = sent sm \<and> syncPeer sm' = syncPeer sm \<and> MaxInvPerMsg sm' = MaxInvPerMsg sm
     \<and> rejectedTxns sm' = rejectedTxns sm \<and> requestedTxns sm' = requestedTxns sm
     \<and> headersFirstMode sm' = headersFirstMode sm \<and> nextCheckpoint sm' = nextCheckpoint sm
     \<and> headerList sm' = headerList sm \<and> regressionTest sm' = regressionTest sm"
  by (auto simp: fetchNode_def Let_def split: if_splits option.splits)

lemma fetchLoop_frame:
  "fetchLoop e ns n gd sm = Inr (rest, gd', sm') \<Longrightarrow>
     sent sm' = sent sm \<and> syncPeer sm' = syncPeer sm \<and> MaxInvPerMsg sm' = MaxInvPerMsg sm
     \<and> rejectedTxns sm' = rejectedTxns sm \<and> requestedTxns sm' = requestedTxns sm
     \<and> headersFirstMode sm' = headersFirstMode sm \<and> nextCheckpoint sm' = nextCheckpoint sm
     \<and> headerList sm' = headerList sm \<and> regressionTest sm' = regressionTest sm"
proof (induction ns arbitrary: n gd sm)
  case Nil
  then show ?case by simp
next
  case (Cons node ns)
  from Cons.prems obtain n1 gd1 sm1 where
    st: "fetchNode e node n gd sm = Inr (n1, gd1, sm1)"
    by (auto split: sum.splits)
  note f1 = fetchNode_frame [OF st]
  show ?case
  proof (cases "n1 \<ge> MaxInvPerMsg sm")
    case True
    with Cons.prems st have "sm' = sm1" by simp
    with f1 show ?thesis by simp
  next
    case False
    with Cons.prems st have "fetchLoop e ns n1 gd1 sm1 = Inr (rest, gd', sm')" by simp
    from Cons.IH [OF this] f1 show ?thesis by simp
  qed
qed

lemma fetchHeaderBlocks_frame:
  assumes "fetchHeaderBlocks e sm = Inr sm'"
  shows "appended quiet sm sm' \<and> syncPeer sm' = syncPeer sm \<and> MaxInvPerMsg sm' = MaxInvPerMsg sm
     \<and> rejectedTxns sm' = rejectedTxns sm \<and> requestedTxns sm' = requestedTxns sm
     \<and> headersFirstMode sm' = headersFirstMode sm \<and> nextCheckpoint sm' = nextCheckpoint sm
     \<and> headerList sm' = headerList sm \<and> regressionTest sm' = regressionTest sm"
proof (cases "startHeader sm")
  case None
  then show ?thesis using assms by (simp add: fetchHeaderBlocks_def)
next
  case (Some r)
  define ns where "ns = (case r of AtIndex i \<Rightarrow> drop i (headerList sm) | Unlinked l \<Rightarrow> l)"
  from assms Some obtain rest gd sm1 where
    loop: "fetchLoop e ns 0 [] sm = Inr (rest, gd, sm1)"
    by (auto simp: fetchHeaderBlocks_def ns_def Let_def split: sum.splits)
  note fr = fetchLoop_frame [OF loop]
  define sm2 where "sm2 = sm1\<lparr>startHeader :=
                                  (if rest = [] then None
                                   else (case r of
                                           AtIndex i \<Rightarrow> Some (AtIndex (i + (length ns - length rest)))
                                         | Unlinked _ \<Rightarrow> Some (Unlinked rest)))\<rparr>"
  have res: "sm' = sm2 \<or> (\<exists>sp. sm' = emit (QueueMessage sp gd) sm2)"
    using assms Some loop
    by (auto simp: fetchHeaderBlocks_def ns_def [symmetric] sm2_def Let_def
             split: if_splits option.splits)
  have a: "appended quiet sm sm2" using fr by (simp add: appended_def sm2_def)
  from res show ?thesis
  proof
    assume "sm' = sm2"
    then show ?thesis using a fr by (simp add: sm2_def)
  next
    assume "\<exists>sp. sm' = emit (QueueMessage sp gd) sm2"
    then obtain sp where "sm' = emit (QueueMessage sp gd) sm2" ..
    then show ?thesis using appended_emit [OF _ a, of "QueueMessage sp gd"] fr
      by (simp add: sm2_def)
  qed
qed


text \<open>The stages of \<^verbatim>\<open>handleBlockMsg\<close>.\<close>

lemma appended_mono: "appended P a b \<Longrightarrow> (\<And>ev. P ev \<Longrightarrow> Q ev) \<Longrightarrow> appended Q a b"
  by (auto simp: appended_def list_all_iff)

lemma checkFirstNode_frame:
  "checkFirstNode b sm = Inr (c, fl, sm1) \<Longrightarrow>
     sent sm1 = sent sm \<and> requestedBlocks sm1 = requestedBlocks sm
     \<and> peerStates sm1 = peerStates sm \<and> regressionTest sm1 = regressionTest sm
     \<and> MaxInvPerMsg sm1 = MaxInvPerMsg sm \<and> rejectedTxns sm1 = rejectedTxns sm
     \<and> requestedTxns sm1 = requestedTxns sm \<and> syncPeer sm1 = syncPeer sm"
  by (auto simp: checkFirstNode_def split: if_splits list.splits option.splits)

lemma removeRequest_fields [simp]:
  "sent (removeRequest pp h sm) = sent sm"
  "requestedBlocks (removeRequest pp h sm) = deleteKey h (requestedBlocks sm)"
  "MaxInvPerMsg (removeRequest pp h sm) = MaxInvPerMsg sm"
  "rejectedTxns (removeRequest pp h sm) = rejectedTxns sm"
  "requestedTxns (removeRequest pp h sm) = requestedTxns sm"
  "syncPeer (removeRequest pp h sm) = syncPeer sm"
  "headersFirstMode (removeRequest pp h sm) = headersFirstMode sm"
  "nextCheckpoint (removeRequest pp h sm) = nextCheckpoint sm"
  by (simp_all add: removeRequest_def)

lemma checkpointReached_frame:
  "checkpointReached e pp b sm = Inr sm' \<Longrightarrow>
     appended quiet sm sm' \<and> requestedBlocks sm' = requestedBlocks sm
     \<and> peerStates sm' = peerStates sm \<and> MaxInvPerMsg sm' = MaxInvPerMsg sm
     \<and> rejectedTxns sm' = rejectedTxns sm \<and> requestedTxns sm' = requestedTxns sm"
  by (auto simp: checkpointReached_def Let_def appended_def split: option.splits)

lemma reportBlock_frame:
  "reportBlock e pp b isOrphan hu bh sm = Inr (hu', bh', sm') \<Longrightarrow>
     appended quiet sm sm' \<and> requestedBlocks sm' = requestedBlocks sm
     \<and> peerStates sm' = peerStates sm \<and> MaxInvPerMsg sm' = MaxInvPerMsg sm
     \<and> requestedTxns sm' = requestedTxns sm \<and> length (rejectedTxns sm') \<le> length (rejectedTxns sm)"
  by (auto simp: reportBlock_def appended_def split: if_splits sum.splits option.splits)

lemma updatePeerHeight_frame:
  "appended quiet sm (updatePeerHeight e pp isOrphan hu bh sm)
     \<and> requestedBlocks (updatePeerHeight e pp isOrphan hu bh sm) = requestedBlocks sm
     \<and> peerStates (updatePeerHeight e pp isOrphan hu bh sm) = peerStates sm
     \<and> MaxInvPerMsg (updatePeerHeight e pp isOrphan hu bh sm) = MaxInvPerMsg sm
     \<and> requestedTxns (updatePeerHeight e pp isOrphan hu bh sm) = requestedTxns sm
     \<and> rejectedTxns (updatePeerHeight e pp isOrphan hu bh sm) = rejectedTxns sm"
  by (auto simp: updatePeerHeight_def appended_def Let_def split: option.splits)

lemma headersFirstNext_appended:
  "headersFirstNext e pp b c sm = Inr sm' \<Longrightarrow> appended quiet sm sm'"
  by (auto simp: headersFirstNext_def split: if_splits
           dest: fetchHeaderBlocks_frame checkpointReached_frame)

lemma afterProcessBlock_appended:
  assumes "afterProcessBlock e pp b isOrphan c hu bh sm = Inr sm'"
  shows "appended quiet sm sm'"
proof -
  from assms obtain hu' bh' sm1 where
    r: "reportBlock e pp b isOrphan hu bh sm = Inr (hu', bh', sm1)"
    and h: "headersFirstNext e pp b c (updatePeerHeight e pp isOrphan hu' bh' sm1) = Inr sm'"
    by (auto simp: afterProcessBlock_def split: sum.splits)
  have "appended quiet sm sm1" using reportBlock_frame [OF r] by simp
  moreover have "appended quiet sm1 (updatePeerHeight e pp isOrphan hu' bh' sm1)"
    using updatePeerHeight_frame by simp
  moreover note headersFirstNext_appended [OF h]
  ultimately show ?thesis by (blast intro: appended_trans)
qed

text \<open>No stage after \<^verbatim>\<open>ProcessBlock\<close> raises the database-corruption panic.\<close>

lemma fetchNode_panic: "fetchNode e node n gd sm = Inl x \<Longrightarrow> x = NilDereference"
  by (auto simp: fetchNode_def Let_def split: if_splits option.splits)

lemma fetchLoop_panic: "fetchLoop e ns n gd sm = Inl x \<Longrightarrow> x = NilDereference"
proof (induction ns arbitrary: n gd sm)
  case Nil
  then show ?case by simp
next
  case (Cons node ns)
  then show ?case
    by (auto split: sum.splits if_splits dest: fetchNode_panic)
qed

lemma fetchHeaderBlocks_panic: "fetchHeaderBlocks e sm = Inl x \<Longrightarrow> x = NilDereference"
  by (auto simp: fetchHeaderBlocks_def Let_def split: option.splits sum.splits if_splits
           dest: fetchLoop_panic)

lemma afterProcessBlock_panic:
  "afterProcessBlock e pp b isOrphan c hu bh sm = Inl x \<Longrightarrow> x \<noteq> DatabaseCorruption"
  by (auto simp: afterProcessBlock_def reportBlock_def headersFirstNext_def checkpointReached_def
                 coinbaseHeight_def Let_def
           split: sum.splits if_splits option.splits list.splits
           dest: fetchHeaderBlocks_panic)



subsection \<open>Block messages\<close>

text \<open>
  C10 (code defect). The claim is that the first transaction read under
  \<^verbatim>\<open>ShouldHaveSerializedBlockHeight\<close> is always there. Nothing before the read checks the
  transaction list: a requested block whose header calls for a serialized height and
  whose transaction list is empty makes \<^verbatim>\<open>handleBlockMsg\<close> panic with an index out of range,
  before \<^verbatim>\<open>ProcessBlock\<close> could reject it. The \<^verbatim>\<open>processBlockMsg\<close> path tests the length and
  passes height 0 for the same block.
\<close>

theorem handleBlockMsg_empty_block_panics:
  "handleBlockMsg env0 1 \<lparr>blockHash = 7, Header = 2, Transactions = []\<rparr> sm0 = Inl IndexOutOfRange
   \<and> processBlockMsgHeight env0 \<lparr>blockHash = 7, Header = 2, Transactions = []\<rparr> = 0"
  by (simp add: handleBlockMsg_def env0_def sm0_def processPeerBlock_def checkFirstNode_def
        coinbaseHeight_def processBlockMsgHeight_def)

text \<open>
  C1 as stated fails: the reject (and the panic) sit under the guard
  \<^verbatim>\<open>heightUpdate+1 <= sm.chain.BestChain.Height()\<close>. On a chain at height 0 a requested block
  that \<^verbatim>\<open>ProcessBlock\<close> refuses with a rule error, or with a database-corruption error, is
  handled as an orphan: no reject, no panic, a \<^verbatim>\<open>getblocks\<close> for its root instead.
\<close>

theorem handleBlockMsg_error_above_best_not_rejected:
  "handleBlockMsg env0 1 \<lparr>blockHash = 7, Header = 1, Transactions = [55]\<rparr> sm0
     = Inr (sm0\<lparr>requestedBlocks := [],
                peerStates := [1 \<mapsto> \<lparr>syncCandidate = True, requestQueue = [],
                                       peerRequestedTxns = [], peerRequestedBlocks = []\<rparr>],
                sent := [ProcessBlock 7 BFNone 0, PushGetBlocksMsg 1 [1000] 7]\<rparr>)
   \<and> handleBlockMsg (env0\<lparr>processBlockResult := PBErr DBCorruption\<rparr>) 1
        \<lparr>blockHash = 7, Header = 1, Transactions = [55]\<rparr> sm0
     = Inr (sm0\<lparr>requestedBlocks := [],
                peerStates := [1 \<mapsto> \<lparr>syncCandidate = True, requestQueue = [],
                                       peerRequestedTxns = [], peerRequestedBlocks = []\<rparr>],
                sent := [ProcessBlock 7 BFNone 0, PushGetBlocksMsg 1 [1000] 7]\<rparr>)"
  by (simp add: handleBlockMsg_def env0_def sm0_def processPeerBlock_def checkFirstNode_def
        coinbaseHeight_def removeRequest_def updPeer_def deleteKey_def emit_def
        afterProcessBlock_def reportBlock_def updatePeerHeight_def headersFirstNext_def)

text \<open>Nothing after \<^verbatim>\<open>ProcessBlock\<close> reads the result of \<^verbatim>\<open>ProcessBlock\<close> again.\<close>

lemma fetchNode_result_indep:
  "fetchNode (e\<lparr>processBlockResult := x\<rparr>) node n gd sm = fetchNode e node n gd sm"
  by (simp add: fetchNode_def haveInventory_def)

lemma fetchLoop_result_indep:
  "fetchLoop (e\<lparr>processBlockResult := x\<rparr>) ns n gd sm = fetchLoop e ns n gd sm"
  by (induction ns arbitrary: n gd sm)
     (simp_all add: fetchNode_result_indep split: sum.splits prod.splits)

lemma fetchHeaderBlocks_result_indep:
  "fetchHeaderBlocks (e\<lparr>processBlockResult := x\<rparr>) sm = fetchHeaderBlocks e sm"
  by (simp add: fetchHeaderBlocks_def fetchLoop_result_indep Let_def split: option.splits)

lemma coinbaseHeight_result_indep:
  "coinbaseHeight (e\<lparr>processBlockResult := x\<rparr>) b = coinbaseHeight e b"
  by (simp add: coinbaseHeight_def split: list.splits)

lemma afterProcessBlock_result_indep:
  "afterProcessBlock (e\<lparr>processBlockResult := x\<rparr>) pp b isOrphan c hu bh sm
     = afterProcessBlock e pp b isOrphan c hu bh sm"
proof -
  have r: "reportBlock (e\<lparr>processBlockResult := x\<rparr>) pp b isOrphan hu bh sm
             = reportBlock e pp b isOrphan hu bh sm"
    by (simp add: reportBlock_def coinbaseHeight_result_indep split: sum.splits option.splits)
  have u: "\<And>h k s. updatePeerHeight (e\<lparr>processBlockResult := x\<rparr>) pp isOrphan h k s
             = updatePeerHeight e pp isOrphan h k s"
    by (simp add: updatePeerHeight_def current_def Let_def split: option.splits)
  have c: "\<And>s. checkpointReached (e\<lparr>processBlockResult := x\<rparr>) pp b s = checkpointReached e pp b s"
    by (simp add: checkpointReached_def findNextHeaderCheckpoint_def Let_def split: option.splits)
  have n: "\<And>s. headersFirstNext (e\<lparr>processBlockResult := x\<rparr>) pp b c s = headersFirstNext e pp b c s"
    by (simp add: headersFirstNext_def fetchHeaderBlocks_result_indep c)
  show ?thesis by (simp add: afterProcessBlock_def r u n split: sum.splits)
qed

text \<open>The orphan branch asks the sender for the blocks up to the orphan root.\<close>

lemma afterProcessBlock_orphan_getblocks:
  assumes "afterProcessBlock e pp b True c hu bh sm = Inr sm'"
    and "LatestBlockLocator e = Some loc"
  shows "\<exists>evs. sent sm' = sent sm @ PushGetBlocksMsg pp loc (GetOrphanRoot e (blockHash b)) # evs
               \<and> list_all quiet evs"
proof -
  from assms(1) obtain hu' bh' sm1 where
    r: "reportBlock e pp b True hu bh sm = Inr (hu', bh', sm1)"
    and h: "headersFirstNext e pp b c (updatePeerHeight e pp True hu' bh' sm1) = Inr sm'"
    by (auto simp: afterProcessBlock_def split: sum.splits)
  have s1: "sent sm1 = sent sm @ [PushGetBlocksMsg pp loc (GetOrphanRoot e (blockHash b))]"
    using r assms(2) by (auto simp: reportBlock_def split: sum.splits)
  have "appended quiet sm1 (updatePeerHeight e pp True hu' bh' sm1)"
    using updatePeerHeight_frame by simp
  then have "appended quiet sm1 sm'"
    using headersFirstNext_appended [OF h] by (blast intro: appended_trans)
  then obtain evs where "sent sm' = sent sm1 @ evs" "list_all quiet evs"
    by (auto simp: appended_def)
  then show ?thesis using s1 by simp
qed

text \<open>
  C1, amended. For a requested block (or any block on the regression-test chain) that
  reaches \<^verbatim>\<open>ProcessBlock\<close> and gets an error back, with \<open>heightUpdate\<close> the height read from
  the coinbase (0 when there is none) and \<open>atCall\<close> the manager at the call: when
  \<open>heightUpdate + 1 \<le> BestChain.Height()\<close> in \<^verbatim>\<open>int32\<close> arithmetic, a database-corruption
  error is a panic and any other error pushes a reject to the sender and returns with
  nothing else changed. Otherwise the error is dropped and the block is handled as an
  orphan: the handler does exactly what it does when \<^verbatim>\<open>ProcessBlock\<close> reports
  \<^verbatim>\<open>isOrphan = true\<close> without an error, that is the orphan branch run from \<open>atCall\<close>; it
  does not raise the database-corruption panic, it sends neither a reject nor a
  disconnect, and when the block locator is available its first call is the \<^verbatim>\<open>getblocks\<close>
  to the sender up to the orphan root.
\<close>

theorem handleBlockMsg_processing_error:
  assumes known: "peerStates sm pp = Some st"
    and req: "blockHash b \<in> set (peerRequestedBlocks st) \<or> regressionTest sm"
    and first: "checkFirstNode b sm = Inr (isCheckpointBlock, flags, sm1)"
    and cb: "coinbaseHeight e b = Inr r"
    and err: "processBlockResult e = PBErr err"
    and hu: "heightUpdate = (case r of None \<Rightarrow> 0 | Some cbHeight \<Rightarrow> cbHeight)"
    and call: "atCall = emit (ProcessBlock (blockHash b) flags heightUpdate)
                          (removeRequest pp (blockHash b) sm1)"
  shows "(sint (heightUpdate + 1) \<le> sint (bestChainHeight e) \<longrightarrow>
            handleBlockMsg e pp b sm =
              (if err = DBCorruption then Inl DatabaseCorruption
               else Inr (atCall\<lparr>sent := sent atCall @ [PushRejectMsg pp ''block'' (blockHash b)]\<rparr>)))
       \<and> (\<not> sint (heightUpdate + 1) \<le> sint (bestChainHeight e) \<longrightarrow>
            handleBlockMsg e pp b sm \<noteq> Inl DatabaseCorruption
            \<and> (\<forall>sm'. handleBlockMsg e pp b sm = Inr sm' \<longrightarrow> appended quiet atCall sm')
            \<and> (\<forall>isMainChain. handleBlockMsg e pp b sm
                   = handleBlockMsg (e\<lparr>processBlockResult := PBOk isMainChain True\<rparr>) pp b sm)
            \<and> handleBlockMsg e pp b sm
                = afterProcessBlock e pp b True isCheckpointBlock heightUpdate
                    (case r of None \<Rightarrow> None | Some _ \<Rightarrow> Some (blockHash b)) atCall
            \<and> (\<forall>sm' loc. handleBlockMsg e pp b sm = Inr sm' \<and> LatestBlockLocator e = Some loc \<longrightarrow>
                  (\<exists>evs. sent sm' = sent atCall
                            @ PushGetBlocksMsg pp loc (GetOrphanRoot e (blockHash b)) # evs
                          \<and> list_all quiet evs)))"
proof -
  have h: "handleBlockMsg e pp b sm = processPeerBlock e pp b sm"
    using known req by (auto simp: handleBlockMsg_def)
  show ?thesis
  proof (cases "sint (heightUpdate + 1) \<le> sint (bestChainHeight e)")
    case True
    then show ?thesis
      using h first cb err hu call
      by (simp add: processPeerBlock_def Let_def emit_def)
  next
    case False
    let ?bh = "case r of None \<Rightarrow> None | Some _ \<Rightarrow> Some (blockHash b)"
    have p: "processPeerBlock e pp b sm =
             afterProcessBlock e pp b True isCheckpointBlock heightUpdate ?bh atCall"
      using False first cb err hu call by (simp add: processPeerBlock_def Let_def)
    have np: "handleBlockMsg e pp b sm \<noteq> Inl DatabaseCorruption"
      using h p afterProcessBlock_panic [of e pp b True isCheckpointBlock heightUpdate _ atCall DatabaseCorruption]
      by auto
    have ap: "\<forall>sm'. handleBlockMsg e pp b sm = Inr sm' \<longrightarrow> appended quiet atCall sm'"
      using h p afterProcessBlock_appended by simp
    have orph: "handleBlockMsg (e\<lparr>processBlockResult := PBOk m True\<rparr>) pp b sm
                  = afterProcessBlock e pp b True isCheckpointBlock heightUpdate ?bh atCall" for m
    proof -
      have "handleBlockMsg (e\<lparr>processBlockResult := PBOk m True\<rparr>) pp b sm
              = processPeerBlock (e\<lparr>processBlockResult := PBOk m True\<rparr>) pp b sm"
        using known req by (auto simp: handleBlockMsg_def)
      also have "\<dots> = afterProcessBlock (e\<lparr>processBlockResult := PBOk m True\<rparr>) pp b True
                          isCheckpointBlock heightUpdate ?bh atCall"
        using first cb hu call
        by (simp add: processPeerBlock_def Let_def coinbaseHeight_result_indep)
      finally show ?thesis by (simp add: afterProcessBlock_result_indep)
    qed
    have eq: "handleBlockMsg e pp b sm
                = afterProcessBlock e pp b True isCheckpointBlock heightUpdate ?bh atCall"
      using h p by simp
    have gb: "\<forall>sm' loc. handleBlockMsg e pp b sm = Inr sm' \<and> LatestBlockLocator e = Some loc \<longrightarrow>
                  (\<exists>evs. sent sm' = sent atCall
                            @ PushGetBlocksMsg pp loc (GetOrphanRoot e (blockHash b)) # evs
                          \<and> list_all quiet evs)"
    proof (intro allI impI, elim conjE)
      fix sm' loc
      assume "handleBlockMsg e pp b sm = Inr sm'" and l: "LatestBlockLocator e = Some loc"
      then have "afterProcessBlock e pp b True isCheckpointBlock heightUpdate ?bh atCall = Inr sm'"
        using eq by simp
      from afterProcessBlock_orphan_getblocks [OF this l]
      show "\<exists>evs. sent sm' = sent atCall
                            @ PushGetBlocksMsg pp loc (GetOrphanRoot e (blockHash b)) # evs
                          \<and> list_all quiet evs" .
    qed
    show ?thesis using False np ap orph eq gb by simp
  qed
qed

lemma sm0_first: "checkFirstNode \<lparr>blockHash = 7, Header = 1, Transactions = [55]\<rparr> sm0 = Inr (False, BFNone, sm0)"
  by (simp add: checkFirstNode_def sm0_def)

theorem handleBlockMsg_processing_error_witness:
  "handleBlockMsg (env0\<lparr>bestChainHeight := 1\<rparr>) 1
     \<lparr>blockHash = 7, Header = 1, Transactions = [55]\<rparr> sm0
   = Inr ((emit (ProcessBlock 7 BFNone 0) (removeRequest 1 7 sm0))
            \<lparr>sent := sent (emit (ProcessBlock 7 BFNone 0) (removeRequest 1 7 sm0))
                      @ [PushRejectMsg 1 ''block'' 7]\<rparr>)
   \<and> handleBlockMsg (env0\<lparr>bestChainHeight := 1, processBlockResult := PBErr DBCorruption\<rparr>) 1
     \<lparr>blockHash = 7, Header = 1, Transactions = [55]\<rparr> sm0 = Inl DatabaseCorruption
   \<and> handleBlockMsg env0 1 \<lparr>blockHash = 7, Header = 1, Transactions = [55]\<rparr> sm0
     = handleBlockMsg (env0\<lparr>processBlockResult := PBOk False True\<rparr>) 1
         \<lparr>blockHash = 7, Header = 1, Transactions = [55]\<rparr> sm0
   \<and> handleBlockMsg env0 1 \<lparr>blockHash = 7, Header = 1, Transactions = [55]\<rparr> sm0
     \<noteq> Inl DatabaseCorruption"
proof -
  let ?b = "\<lparr>blockHash = 7, Header = 1, Transactions = [55]\<rparr>"
  let ?e1 = "env0\<lparr>bestChainHeight := 1\<rparr>"
  let ?e2 = "env0\<lparr>bestChainHeight := 1, processBlockResult := PBErr DBCorruption\<rparr>"
  have known: "peerStates sm0 1 = Some \<lparr>syncCandidate = True, requestQueue = [],
                  peerRequestedTxns = [], peerRequestedBlocks = [7]\<rparr>"
    by (simp add: sm0_def)
  have req: "blockHash ?b \<in> set (peerRequestedBlocks \<lparr>syncCandidate = True, requestQueue = [],
                  peerRequestedTxns = [], peerRequestedBlocks = [7]\<rparr>) \<or> regressionTest sm0"
    by simp
  have cb0: "coinbaseHeight env0 ?b = Inr None"
    and cb1: "coinbaseHeight ?e1 ?b = Inr None" and cb2: "coinbaseHeight ?e2 ?b = Inr None"
    by (simp_all add: coinbaseHeight_def env0_def)
  have er0: "processBlockResult env0 = PBErr RuleError"
    and er1: "processBlockResult ?e1 = PBErr RuleError"
    and er2: "processBlockResult ?e2 = PBErr DBCorruption"
    by (simp_all add: env0_def)
  have g0: "\<not> sint ((0::int32) + 1) \<le> sint (bestChainHeight env0)"
    by (simp add: env0_def)
  have g1: "sint ((0::int32) + 1) \<le> sint (bestChainHeight ?e1)"
    and g2: "sint ((0::int32) + 1) \<le> sint (bestChainHeight ?e2)"
    by simp_all
  from handleBlockMsg_processing_error [OF known req sm0_first cb1 er1, of 0 "emit (ProcessBlock 7 BFNone 0) (removeRequest 1 7 sm0)"]
       g1
  have a: "handleBlockMsg ?e1 1 ?b sm0
   = Inr ((emit (ProcessBlock 7 BFNone 0) (removeRequest 1 7 sm0))
            \<lparr>sent := sent (emit (ProcessBlock 7 BFNone 0) (removeRequest 1 7 sm0))
                      @ [PushRejectMsg 1 ''block'' 7]\<rparr>)"
    by simp
  from handleBlockMsg_processing_error [OF known req sm0_first cb2 er2, of 0 "emit (ProcessBlock 7 BFNone 0) (removeRequest 1 7 sm0)"]
       g2
  have b: "handleBlockMsg ?e2 1 ?b sm0 = Inl DatabaseCorruption" by simp
  from handleBlockMsg_processing_error [OF known req sm0_first cb0 er0, of 0 "emit (ProcessBlock 7 BFNone 0) (removeRequest 1 7 sm0)"]
       g0
  have c: "handleBlockMsg env0 1 ?b sm0
             = handleBlockMsg (env0\<lparr>processBlockResult := PBOk False True\<rparr>) 1 ?b sm0
           \<and> handleBlockMsg env0 1 ?b sm0 \<noteq> Inl DatabaseCorruption"
    by auto
  from a b c show ?thesis by blast
qed

text \<open>
  C4. A block that the sending peer, known to the manager, was not asked for: outside the
  regression-test chain the handler records a disconnect of the sender and returns, with
  no call of \<^verbatim>\<open>ProcessBlock\<close> and every field of the manager as it was; on the
  regression-test chain the block goes through the handler like a requested one, and
  whenever the handler returns, \<^verbatim>\<open>ProcessBlock\<close> was called on the block and no peer was
  disconnected.
\<close>

theorem handleBlockMsg_unrequested:
  assumes "peerStates sm pp = Some st" and "blockHash b \<notin> set (peerRequestedBlocks st)"
  shows "(\<not> regressionTest sm \<longrightarrow>
            handleBlockMsg e pp b sm = Inr (sm\<lparr>sent := sent sm @ [Disconnected pp]\<rparr>))
       \<and> (regressionTest sm \<longrightarrow>
            handleBlockMsg e pp b sm = processPeerBlock e pp b sm
            \<and> (\<forall>sm'. handleBlockMsg e pp b sm = Inr sm' \<longrightarrow>
                  (\<exists>flags heightUpdate evs.
                      sent sm' = sent sm @ ProcessBlock (blockHash b) flags heightUpdate # evs
                      \<and> (\<forall>q. Disconnected q \<notin> set evs))))"
proof (cases "regressionTest sm")
  case False
  then show ?thesis using assms by (simp add: handleBlockMsg_def emit_def)
next
  case True
  have h: "handleBlockMsg e pp b sm = processPeerBlock e pp b sm"
    using True assms by (simp add: handleBlockMsg_def)
  have "\<exists>flags heightUpdate evs.
          sent sm' = sent sm @ ProcessBlock (blockHash b) flags heightUpdate # evs
          \<and> (\<forall>q. Disconnected q \<notin> set evs)"
    if r: "processPeerBlock e pp b sm = Inr sm'" for sm'
  proof -
    from r obtain c fl sm1 where f: "checkFirstNode b sm = Inr (c, fl, sm1)"
      by (auto simp: processPeerBlock_def split: sum.splits)
    from r f obtain rr where cb: "coinbaseHeight e b = Inr rr"
      by (auto simp: processPeerBlock_def Let_def split: sum.splits)
    define hu where "hu = (case rr of None \<Rightarrow> (0::int32) | Some cbHeight \<Rightarrow> cbHeight)"
    define atCall where "atCall = emit (ProcessBlock (blockHash b) fl hu) (removeRequest pp (blockHash b) sm1)"
    have s: "sent atCall = sent sm @ [ProcessBlock (blockHash b) fl hu]"
      using checkFirstNode_frame [OF f] by (simp add: atCall_def)
    have "sm' = emit (PushRejectMsg pp ''block'' (blockHash b)) atCall \<or> appended quiet atCall sm'"
      using r f cb afterProcessBlock_appended
      by (auto simp: processPeerBlock_def Let_def hu_def atCall_def split: pbResult.splits if_splits)
    then show ?thesis
    proof
      assume "sm' = emit (PushRejectMsg pp ''block'' (blockHash b)) atCall"
      then have "sent sm' = sent sm @ ProcessBlock (blockHash b) fl hu # [PushRejectMsg pp ''block'' (blockHash b)]"
        using s by simp
      then show ?thesis by (intro exI [of _ fl] exI [of _ hu] exI [of _ "[PushRejectMsg pp ''block'' (blockHash b)]"]) simp
    next
      assume "appended quiet atCall sm'"
      then obtain evs where e: "sent sm' = sent atCall @ evs" and q: "list_all quiet evs"
        by (auto simp: appended_def)
      have "\<forall>q. Disconnected q \<notin> set evs"
        using q by (auto simp: list_all_iff)
      then show ?thesis using e s by auto
    qed
  qed
  then show ?thesis using True h by simp
qed

theorem handleBlockMsg_unrequested_witness:
  "handleBlockMsg env0 1 \<lparr>blockHash = 8, Header = 1, Transactions = [55]\<rparr> sm0
     = Inr (sm0\<lparr>sent := [Disconnected 1]\<rparr>)
   \<and> (\<exists>sm'. handleBlockMsg env0 1 \<lparr>blockHash = 8, Header = 1, Transactions = [55]\<rparr>
               (sm0\<lparr>regressionTest := True\<rparr>) = Inr sm'
             \<and> ProcessBlock 8 BFNone 0 \<in> set (sent sm') \<and> Disconnected 1 \<notin> set (sent sm'))"
proof -
  let ?b = "\<lparr>blockHash = 8, Header = 1, Transactions = [55]\<rparr>"
  let ?st = "\<lparr>syncCandidate = True, requestQueue = [], peerRequestedTxns = [], peerRequestedBlocks = [7]\<rparr>"
  have k1: "peerStates sm0 1 = Some ?st" and k2: "peerStates (sm0\<lparr>regressionTest := True\<rparr>) 1 = Some ?st"
    by (simp_all add: sm0_def)
  have n: "blockHash ?b \<notin> set (peerRequestedBlocks ?st)" by simp
  have r1: "\<not> regressionTest sm0" and r2: "regressionTest (sm0\<lparr>regressionTest := True\<rparr>)"
    and s0: "sent sm0 = []"
    by (simp_all add: sm0_def)
  have a: "handleBlockMsg env0 1 ?b sm0 = Inr (sm0\<lparr>sent := [Disconnected 1]\<rparr>)"
    using handleBlockMsg_unrequested [OF k1 n, of env0] r1 s0 by simp
  have ex: "\<exists>sm'. processPeerBlock env0 1 ?b (sm0\<lparr>regressionTest := True\<rparr>) = Inr sm'
                  \<and> ProcessBlock 8 BFNone 0 \<in> set (sent sm') \<and> Disconnected 1 \<notin> set (sent sm')"
    by (simp add: env0_def sm0_def processPeerBlock_def checkFirstNode_def
        coinbaseHeight_def removeRequest_def updPeer_def deleteKey_def emit_def
        afterProcessBlock_def reportBlock_def updatePeerHeight_def headersFirstNext_def)
  have "handleBlockMsg env0 1 ?b (sm0\<lparr>regressionTest := True\<rparr>)
          = processPeerBlock env0 1 ?b (sm0\<lparr>regressionTest := True\<rparr>)"
    using handleBlockMsg_unrequested [OF k2 n, of env0] r2 by simp
  with ex a show ?thesis by simp
qed

subsection \<open>Headers messages\<close>

lemma linkHeader_cases:
  assumes "headerList sm \<noteq> []" and "nextCheckpoint sm = Some cp"
  shows "(\<exists>sm'. linkHeader p bh sm = Inr (Some Returned, sm')
             \<and> sent sm' = sent sm @ [Disconnected p]
             \<and> nextCheckpoint sm' = nextCheckpoint sm
             \<and> headersFirstMode sm' = headersFirstMode sm)
       \<or> (\<exists>sm'. linkHeader p bh sm = Inr (if height (last (headerList sm)) + 1 = Height cp
                                             then Some ReceivedCheckpoint else None, sm')
             \<and> (height (last (headerList sm)) + 1 = Height cp \<longrightarrow> BlockHash bh = Hash cp)
             \<and> sent sm' = sent sm \<and> nextCheckpoint sm' = nextCheckpoint sm
             \<and> headersFirstMode sm' = headersFirstMode sm
             \<and> headerList sm' = headerList sm
                  @ [\<lparr>height = height (last (headerList sm)) + 1, hash = BlockHash bh\<rparr>])"
  using assms
  by (auto simp: linkHeader_def list.case_eq_if Let_def split: option.splits)

lemma headersLoop_mismatch:
  assumes "headerList sm \<noteq> []"
    and "nextCheckpoint sm = Some cp"
    and "i < length hs"
    and "height (last (headerList sm)) + word_of_nat (Suc i) = Height cp"
    and "BlockHash (hs ! i) \<noteq> Hash cp"
    and "\<forall>j<i. height (last (headerList sm)) + word_of_nat (Suc j) \<noteq> Height cp"
  shows "\<exists>sm'. headersLoop p hs sm = Inr (Returned, sm')
           \<and> sent sm' = sent sm @ [Disconnected p]
           \<and> nextCheckpoint sm' = nextCheckpoint sm
           \<and> headersFirstMode sm' = headersFirstMode sm"
  using assms
proof (induction hs arbitrary: sm i)
  case Nil
  then show ?case by simp
next
  case (Cons bh hs)
  from linkHeader_cases [OF Cons.prems(1,2), of p bh]
  show ?case
  proof
    assume "\<exists>sm'. linkHeader p bh sm = Inr (Some Returned, sm')
             \<and> sent sm' = sent sm @ [Disconnected p]
             \<and> nextCheckpoint sm' = nextCheckpoint sm
             \<and> headersFirstMode sm' = headersFirstMode sm"
    then show ?thesis by auto
  next
    assume "\<exists>sm'. linkHeader p bh sm = Inr (if height (last (headerList sm)) + 1 = Height cp
                                             then Some ReceivedCheckpoint else None, sm')
             \<and> (height (last (headerList sm)) + 1 = Height cp \<longrightarrow> BlockHash bh = Hash cp)
             \<and> sent sm' = sent sm \<and> nextCheckpoint sm' = nextCheckpoint sm
             \<and> headersFirstMode sm' = headersFirstMode sm
             \<and> headerList sm' = headerList sm
                  @ [\<lparr>height = height (last (headerList sm)) + 1, hash = BlockHash bh\<rparr>]"
    then obtain sm2 where
      st: "linkHeader p bh sm = Inr (if height (last (headerList sm)) + 1 = Height cp
                                     then Some ReceivedCheckpoint else None, sm2)"
      and m: "height (last (headerList sm)) + 1 = Height cp \<longrightarrow> BlockHash bh = Hash cp"
      and f2: "sent sm2 = sent sm" "nextCheckpoint sm2 = nextCheckpoint sm"
        "headersFirstMode sm2 = headersFirstMode sm"
        "headerList sm2 = headerList sm
           @ [\<lparr>height = height (last (headerList sm)) + 1, hash = BlockHash bh\<rparr>]"
      by blast
    show ?thesis
    proof (cases i)
      case 0
      then have "height (last (headerList sm)) + 1 = Height cp" "BlockHash bh \<noteq> Hash cp"
        using Cons.prems(4,5) by simp_all
      with m show ?thesis by simp
    next
      case (Suc k)
      have ne: "height (last (headerList sm)) + 1 \<noteq> Height cp"
        using Cons.prems(6) Suc by (auto dest: spec [of _ 0])
      have l: "height (last (headerList sm2)) = height (last (headerList sm)) + 1"
        using f2 by simp
      have a: "headerList sm2 \<noteq> []" using f2 by simp
      have a2: "nextCheckpoint sm2 = Some cp" using f2 Cons.prems(2) by simp
      have b: "k < length hs" using Cons.prems(3) Suc by simp
      have c: "height (last (headerList sm2)) + word_of_nat (Suc k) = Height cp"
        using Cons.prems(4) Suc l by (simp add: algebra_simps)
      have d: "BlockHash (hs ! k) \<noteq> Hash cp" using Cons.prems(5) Suc by simp
      have ee: "\<forall>j<k. height (last (headerList sm2)) + word_of_nat (Suc j) \<noteq> Height cp"
      proof (intro allI impI)
        fix j assume "j < k"
        then have "Suc j < i" using Suc by simp
        then have "height (last (headerList sm)) + word_of_nat (Suc (Suc j)) \<noteq> Height cp"
          using Cons.prems(6) by blast
        then show "height (last (headerList sm2)) + word_of_nat (Suc j) \<noteq> Height cp"
          using l by (simp add: algebra_simps)
      qed
      from Cons.IH [OF a a2 b c d ee] obtain sm' where
        r: "headersLoop p hs sm2 = Inr (Returned, sm')"
          "sent sm' = sent sm2 @ [Disconnected p]" "nextCheckpoint sm' = nextCheckpoint sm2"
          "headersFirstMode sm' = headersFirstMode sm2"
        by blast
      have "headersLoop p (bh # hs) sm = headersLoop p hs sm2"
        using st ne by simp
      with r f2 show ?thesis by simp
    qed
  qed
qed

text \<open>
  C5. In headers-first mode, for a headers message from a known peer: if the header at
  position \<open>i\<close> is the first whose computed height (the height of the last node of
  \<^verbatim>\<open>headerList\<close> plus \<open>i + 1\<close>, in \<^verbatim>\<open>int32\<close> arithmetic) is the height of the next checkpoint,
  and its hash is not the checkpoint's, the handler records a disconnect of the sender as
  its only call and returns, with \<^verbatim>\<open>nextCheckpoint\<close> and \<^verbatim>\<open>headersFirstMode\<close> unchanged. This
  holds whether the headers before it link or not: a broken link disconnects too.
\<close>

theorem handleHeadersMsg_checkpoint_mismatch:
  assumes "peerStates sm p = Some st"
    and "headersFirstMode sm"
    and "headerList sm \<noteq> []"
    and "nextCheckpoint sm = Some cp"
    and "i < length headers"
    and "height (last (headerList sm)) + word_of_nat (Suc i) = Height cp"
    and "BlockHash (headers ! i) \<noteq> Hash cp"
    and "\<forall>j<i. height (last (headerList sm)) + word_of_nat (Suc j) \<noteq> Height cp"
  shows "\<exists>sm'. handleHeadersMsg e p headers sm = Inr sm'
           \<and> sent sm' = sent sm @ [Disconnected p]
           \<and> nextCheckpoint sm' = nextCheckpoint sm
           \<and> headersFirstMode sm' = headersFirstMode sm"
proof -
  from headersLoop_mismatch [OF assms(3-8), of p] obtain sm' where
    l: "headersLoop p headers sm = Inr (Returned, sm')"
    and r: "sent sm' = sent sm @ [Disconnected p]" "nextCheckpoint sm' = nextCheckpoint sm"
       "headersFirstMode sm' = headersFirstMode sm"
    by blast
  have "headers \<noteq> []" using assms(5) by auto
  then have "handleHeadersMsg e p headers sm = Inr sm'"
    using assms(1,2) l by (simp add: handleHeadersMsg_def)
  with r show ?thesis by simp
qed

theorem handleHeadersMsg_checkpoint_mismatch_witness:
  "\<exists>sm'. handleHeadersMsg env0 1
            [\<lparr>BlockHash = 1001, PrevBlock = 1000\<rparr>, \<lparr>BlockHash = 666, PrevBlock = 1001\<rparr>] sm_hf = Inr sm'
         \<and> sent sm' = [Disconnected 1]
         \<and> nextCheckpoint sm' = Some \<lparr>Height = 2, Hash = 1002\<rparr>
         \<and> headersFirstMode sm'"
proof -
  let ?hs = "[\<lparr>BlockHash = 1001, PrevBlock = 1000\<rparr>, \<lparr>BlockHash = 666, PrevBlock = 1001\<rparr>]"
  have a: "peerStates sm_hf 1 = Some \<lparr>syncCandidate = True, requestQueue = [],
                            peerRequestedTxns = [], peerRequestedBlocks = []\<rparr>"
    and b: "headersFirstMode sm_hf" and c: "headerList sm_hf \<noteq> []"
    and d: "nextCheckpoint sm_hf = Some \<lparr>Height = 2, Hash = 1002\<rparr>"
    and s: "sent sm_hf = []"
    by (simp_all add: sm_hf_def)
  have i: "(1::nat) < length ?hs" by simp
  have f: "height (last (headerList sm_hf)) + word_of_nat (Suc 1) = Height \<lparr>Height = 2, Hash = 1002\<rparr>"
    by (simp add: sm_hf_def)
  have g: "BlockHash (?hs ! 1) \<noteq> Hash \<lparr>Height = 2, Hash = 1002\<rparr>" by simp
  have h: "\<forall>j<1. height (last (headerList sm_hf)) + word_of_nat (Suc j) \<noteq> Height \<lparr>Height = 2, Hash = 1002\<rparr>"
    by (simp add: sm_hf_def)
  from handleHeadersMsg_checkpoint_mismatch [OF a b c d i f g h, of env0] b d s
  show ?thesis by simp
qed

subsection \<open>Choice of the sync peer\<close>

lemma pickBestPeer_last:
  "pickBestPeer e sm ps best =
     (case filter (eligible e sm) ps of [] \<Rightarrow> best | x # xs \<Rightarrow> Some (last (x # xs)))"
proof (induction ps arbitrary: best)
  case Nil
  then show ?case by simp
next
  case (Cons p ps)
  show ?case
  proof (cases "eligible e sm p")
    case True
    then have "pickBestPeer e sm (p # ps) best = pickBestPeer e sm ps (Some p)"
      by (auto simp: eligible_def split: option.splits)
    then show ?thesis using True Cons.IH [of "Some p"]
      by (simp split: list.splits)
  next
    case False
    then have "pickBestPeer e sm (p # ps) best = pickBestPeer e sm ps best"
      by (auto simp: eligible_def split: option.splits)
    then show ?thesis using False Cons.IH [of best] by simp
  qed
qed

lemma startSync_syncPeer:
  assumes "syncPeer sm = None"
  shows "syncPeer (startSync e sm) =
           (case pickBestPeer e sm (peerOrder e) None of
              None \<Rightarrow> None
            | Some bp \<Rightarrow> (case LatestBlockLocator e of None \<Rightarrow> None | Some _ \<Rightarrow> Some bp))"
  using assms
  by (simp add: startSync_def Let_def split: option.splits)

text \<open>
  C9 as stated fails. \<^verbatim>\<open>startSync\<close> ranges over the Go map \<^verbatim>\<open>peerStates\<close>, whose iteration
  order is not fixed: over the same manager, with the same two candidates, the order 1, 2
  selects peer 2 and the order 2, 1 selects peer 1. (In each run the peer kept is not the
  first candidate met either, the loop having no \<^verbatim>\<open>break\<close>.)
\<close>

theorem startSync_order_dependent:
  "syncPeer (startSync (env0\<lparr>peerOrder := [1, 2]\<rparr>) sm_two) = Some 2
   \<and> syncPeer (startSync (env0\<lparr>peerOrder := [2, 1]\<rparr>) sm_two) = Some 1"
  by (simp add: startSync_def env0_def sm_two_def emit_def)

text \<open>
  C9, amended. When no sync peer is set, the peer \<^verbatim>\<open>startSync\<close> selects is a tracked peer
  whose \<^verbatim>\<open>syncCandidate\<close> flag is set and whose \<^verbatim>\<open>LastBlock()\<close> is not below the local best
  height; it selects one whenever there is such a peer and the block locator can be
  fetched. Which one it selects among several is left to the iteration order of the map;
  the choice is a function of the candidate set when there is exactly one candidate.
\<close>

theorem startSync_selects_candidate:
  assumes "syncPeer sm = None"
  shows "(\<forall>p. syncPeer (startSync e sm) = Some p \<longrightarrow> p \<in> set (peerOrder e) \<and> eligible e sm p)
       \<and> ((\<exists>p \<in> set (peerOrder e). eligible e sm p) \<and> LatestBlockLocator e \<noteq> None
            \<longrightarrow> syncPeer (startSync e sm) \<noteq> None)
       \<and> (\<forall>q. q \<in> set (peerOrder e) \<and> eligible e sm q \<and> LatestBlockLocator e \<noteq> None
               \<and> (\<forall>p \<in> set (peerOrder e). eligible e sm p \<longrightarrow> p = q)
            \<longrightarrow> syncPeer (startSync e sm) = Some q)"
proof -
  define xs where "xs = filter (eligible e sm) (peerOrder e)"
  have pk: "pickBestPeer e sm (peerOrder e) None = (if xs = [] then None else Some (last xs))"
    by (simp add: pickBestPeer_last xs_def split: list.splits)
  have sp: "syncPeer (startSync e sm) =
              (if xs = [] \<or> LatestBlockLocator e = None then None else Some (last xs))"
    using startSync_syncPeer [OF assms, of e] pk by (auto split: option.splits)
  have mem: "xs \<noteq> [] \<Longrightarrow> last xs \<in> set (peerOrder e) \<and> eligible e sm (last xs)"
    using last_in_set [of xs] by (auto simp: xs_def)
  have ne: "(\<exists>p \<in> set (peerOrder e). eligible e sm p) \<longleftrightarrow> xs \<noteq> []"
    by (auto simp: xs_def filter_empty_conv)
  have a: "\<forall>p. syncPeer (startSync e sm) = Some p \<longrightarrow> p \<in> set (peerOrder e) \<and> eligible e sm p"
    using sp mem by (auto split: if_splits)
  have b: "(\<exists>p \<in> set (peerOrder e). eligible e sm p) \<and> LatestBlockLocator e \<noteq> None
            \<longrightarrow> syncPeer (startSync e sm) \<noteq> None"
    using sp ne by auto
  have c: "\<forall>q. q \<in> set (peerOrder e) \<and> eligible e sm q \<and> LatestBlockLocator e \<noteq> None
               \<and> (\<forall>p \<in> set (peerOrder e). eligible e sm p \<longrightarrow> p = q)
            \<longrightarrow> syncPeer (startSync e sm) = Some q"
  proof (intro allI impI)
    fix q
    assume h: "q \<in> set (peerOrder e) \<and> eligible e sm q \<and> LatestBlockLocator e \<noteq> None
               \<and> (\<forall>p \<in> set (peerOrder e). eligible e sm p \<longrightarrow> p = q)"
    then have "xs \<noteq> []" using ne by blast
    moreover from this have "last xs = q" using mem h by blast
    ultimately show "syncPeer (startSync e sm) = Some q" using sp h by simp
  qed
  from a b c show ?thesis by blast
qed

theorem startSync_selects_candidate_witness:
  "syncPeer sm_two = None
   \<and> syncPeer (startSync (env0\<lparr>peerOrder := [1, 2], LastBlock := (\<lambda>p. if p = 1 then 5 else -1)\<rparr>) sm_two)
       = Some 1"
proof -
  let ?e = "env0\<lparr>peerOrder := [1, 2], LastBlock := (\<lambda>p. if p = 1 then 5 else -1)\<rparr>"
  have n: "syncPeer sm_two = None" by (simp add: sm_two_def)
  have e1: "eligible ?e sm_two 1" and e2: "\<not> eligible ?e sm_two 2"
    by (simp_all add: eligible_def sm_two_def env0_def)
  have l: "LatestBlockLocator ?e \<noteq> None" and o: "peerOrder ?e = [1, 2]"
    by (simp_all add: env0_def)
  have u: "\<forall>p \<in> set (peerOrder ?e). eligible ?e sm_two p \<longrightarrow> p = 1"
    using e2 o by auto
  have m: "(1::nat) \<in> set (peerOrder ?e)" using o by simp
  from startSync_selects_candidate [OF n, of ?e] m e1 l u n
  show ?thesis by blast
qed

subsection \<open>Size of the request maps\<close>

text \<open>
  On the paths that call \<^verbatim>\<open>limitMap\<close> (after the insertion) a map within its limit stays
  within it.
\<close>

lemma limitMap_insert_bound:
  assumes "distinct m" and "length m \<le> limit"
  shows "length (limitMap p (insertKey h m) limit) \<le> limit"
proof -
  define m' where "m' = insertKey h m"
  have d: "distinct m'" and l: "length m' \<le> length m + 1"
    using assms(1) by (auto simp: m'_def insertKey_def)
  show ?thesis
  proof (cases "length m' + 1 > limit \<and> m' \<noteq> []")
    case False
    then show ?thesis using assms(2) l
      by (auto simp: limitMap_def m'_def [symmetric] split: list.splits)
  next
    case True
    define x where "x = m' ! (p mod length m')"
    have "x \<in> set m'" using True by (simp add: x_def)
    then have "length (removeAll x m') = length m' - 1"
      using d by (simp add: distinct_remove1_removeAll [symmetric] length_remove1)
    moreover have "limitMap p m' limit = removeAll x m'"
      using True by (auto simp: limitMap_def deleteKey_def x_def split: list.splits)
    ultimately show ?thesis using l assms(2) by (simp add: m'_def [symmetric])
  qed
qed

text \<open>
  \<^verbatim>\<open>fetchHeaderBlocks\<close> on headers that are neither known to the chain nor requested yet:
  every node visited adds an entry to the global map, up to \<^verbatim>\<open>MaxInvPerMsg\<close> of them in one
  call, whatever the map holds already.
\<close>

lemma insertKey_fresh: "h \<notin> set m \<Longrightarrow> insertKey h m = h # m"
  by (simp add: insertKey_def)

lemma fetchNode_fresh:
  assumes "syncPeer sm = Some sp" and "peerStates sm sp = Some st"
    and "\<not> fst (HaveBlock e (hash node))" and "hash node \<notin> set (requestedBlocks sm)"
  shows "\<exists>sm' st'. fetchNode e node k gd sm = Inr (k + 1, gd @ [\<lparr>ivType = InvTypeBlock, ivHash = hash node\<rparr>], sm')
           \<and> requestedBlocks sm' = hash node # requestedBlocks sm
           \<and> syncPeer sm' = Some sp \<and> peerStates sm' sp = Some st'
           \<and> MaxInvPerMsg sm' = MaxInvPerMsg sm"
  using assms by (simp add: fetchNode_def haveInventory_def insertKey_fresh)

lemma fetchLoop_fresh:
  assumes "syncPeer sm = Some sp" and "peerStates sm sp = Some st"
    and "\<forall>n \<in> set ns. \<not> fst (HaveBlock e (hash n))"
    and "distinct (map hash ns)"
    and "set (map hash ns) \<inter> set (requestedBlocks sm) = {}"
  shows "\<exists>rest gd' sm'. fetchLoop e ns k gd sm = Inr (rest, gd', sm')
           \<and> length (requestedBlocks sm') =
               length (requestedBlocks sm) + min (length ns) (max 1 (MaxInvPerMsg sm - k))"
  using assms
proof (induction ns arbitrary: k gd sm st)
  case Nil
  then show ?case by simp
next
  case (Cons node ns)
  have f: "\<not> fst (HaveBlock e (hash node))" "hash node \<notin> set (requestedBlocks sm)"
    using Cons.prems(3,5) by auto
  from fetchNode_fresh [OF Cons.prems(1,2) f, of k gd] obtain sm1 st1 where
    st: "fetchNode e node k gd sm = Inr (k + 1, gd @ [\<lparr>ivType = InvTypeBlock, ivHash = hash node\<rparr>], sm1)"
    and g: "requestedBlocks sm1 = hash node # requestedBlocks sm"
    and sp: "syncPeer sm1 = Some sp" "peerStates sm1 sp = Some st1"
    and mx: "MaxInvPerMsg sm1 = MaxInvPerMsg sm"
    by blast
  show ?case
  proof (cases "k + 1 \<ge> MaxInvPerMsg sm")
    case True
    then have "MaxInvPerMsg sm - k \<le> 1" by simp
    then have "min (length (node # ns)) (max 1 (MaxInvPerMsg sm - k)) = 1"
      by (simp add: max_def)
    then show ?thesis using st g True by simp
  next
    case False
    have a: "\<forall>n \<in> set ns. \<not> fst (HaveBlock e (hash n))" using Cons.prems(3) by simp
    have b: "distinct (map hash ns)" using Cons.prems(4) by simp
    have c: "set (map hash ns) \<inter> set (requestedBlocks sm1) = {}"
      using Cons.prems(4,5) g by auto
    from Cons.IH [OF sp a b c, of "k + 1" "gd @ [\<lparr>ivType = InvTypeBlock, ivHash = hash node\<rparr>]"]
    obtain rest gd' sm' where
      r: "fetchLoop e ns (k + 1) (gd @ [\<lparr>ivType = InvTypeBlock, ivHash = hash node\<rparr>]) sm1 = Inr (rest, gd', sm')"
      and l: "length (requestedBlocks sm') =
               length (requestedBlocks sm1) + min (length ns) (max 1 (MaxInvPerMsg sm1 - (k + 1)))"
      by blast
    have "fetchLoop e (node # ns) k gd sm = Inr (rest, gd', sm')"
      using st False r by simp
    moreover have "length (requestedBlocks sm') =
               length (requestedBlocks sm) + min (length (node # ns)) (max 1 (MaxInvPerMsg sm - k))"
      using l g mx False by (auto simp: min_def max_def)
    ultimately show ?thesis by blast
  qed
qed

lemma fetchHeaderBlocks_fresh:
  assumes "syncPeer sm = Some sp" and "peerStates sm sp = Some st"
    and "startHeader sm = Some (AtIndex i)"
    and "\<forall>n \<in> set (drop i (headerList sm)). \<not> fst (HaveBlock e (hash n))"
    and "distinct (map hash (drop i (headerList sm)))"
    and "set (map hash (drop i (headerList sm))) \<inter> set (requestedBlocks sm) = {}"
  shows "\<exists>sm'. fetchHeaderBlocks e sm = Inr sm'
           \<and> length (requestedBlocks sm') =
               length (requestedBlocks sm)
                 + min (length (headerList sm) - i) (max 1 (MaxInvPerMsg sm))"
proof -
  from fetchLoop_fresh [OF assms(1,2,4,5,6), of 0 "[]"] obtain rest gd' sm1 where
    l: "fetchLoop e (drop i (headerList sm)) 0 [] sm = Inr (rest, gd', sm1)"
    and n: "length (requestedBlocks sm1) =
               length (requestedBlocks sm) + min (length (drop i (headerList sm))) (max 1 (MaxInvPerMsg sm - 0))"
    by blast
  have sp: "syncPeer sm1 = Some sp" using fetchLoop_frame [OF l] assms(1) by simp
  show ?thesis
    using assms(3) l n sp
    by (auto simp: fetchHeaderBlocks_def Let_def)
qed




text \<open>
  C3 (code defect). The global \<^verbatim>\<open>requestedBlocks\<close> map is not kept within
  \<^verbatim>\<open>maxRequestedBlocks\<close>: \<^verbatim>\<open>fetchHeaderBlocks\<close> inserts without calling \<^verbatim>\<open>limitMap\<close>. With
  \<^verbatim>\<open>MaxInvPerMsg\<close> = 50000, ten blocks in flight and 50000 headers waiting, the delivery of
  the first block leaves nine requests, fewer than \<^verbatim>\<open>minInFlightBlocks\<close>, and the refill
  brings the map to 50009 entries. And where \<^verbatim>\<open>limitMap\<close> is called, it runs after the
  insertion, on a map that would not have exceeded its limit: with limit 3, adding a
  third entry evicts one, here the entry just added.
\<close>

theorem handleBlockMsg_refill_exceeds_cap:
  "length (requestedBlocks sm_refill) \<le> maxRequestedBlocks sm_refill
   \<and> (\<exists>sm'. handleBlockMsg env_accept 1 \<lparr>blockHash = 0, Header = 1, Transactions = [55]\<rparr> sm_refill = Inr sm'
          \<and> maxRequestedBlocks sm' = 50000
          \<and> length (requestedBlocks sm') = 50009)
   \<and> limitMap 0 (insertKey 9 [1, 2]) 3 = [1, 2]"
proof -
  let ?b = "\<lparr>blockHash = 0, Header = 1, Transactions = [55]\<rparr>"
  let ?st = "\<lparr>syncCandidate = True, requestQueue = [],
              peerRequestedTxns = [], peerRequestedBlocks = [1..<10]\<rparr>"
  define sm3 where "sm3 =
     sm_refill\<lparr>requestedBlocks := [1..<10],
               peerStates := [1 \<mapsto> ?st],
               headerList := map nodeOf [1..<50010],
               startHeader := Some (AtIndex 9),
               sent := [ProcessBlock 0 BFFastAdd 0, LogBlockHeight 0]\<rparr>"
  have pre: "handleBlockMsg env_accept 1 ?b sm_refill = fetchHeaderBlocks env_accept sm3"
    apply (simp add: handleBlockMsg_def env_accept_def env0_def sm_refill_def upt_conv_Cons [of 0 10])
    apply (simp add: processPeerBlock_def checkFirstNode_def nodeOf_def coinbaseHeight_def)
    apply (simp add: removeRequest_def updPeer_def listRemoveFront_def deleteKey_def)
    apply (simp add: emit_def afterProcessBlock_def reportBlock_def)
    apply (simp add: updatePeerHeight_def headersFirstNext_def minInFlightBlocks_def)
    apply (simp add: sm3_def sm_refill_def env0_def)
    done
  have a: "syncPeer sm3 = Some 1" and b: "peerStates sm3 1 = Some ?st"
    and c: "startHeader sm3 = Some (AtIndex 9)"
    and g: "requestedBlocks sm3 = [1..<10]" and m: "MaxInvPerMsg sm3 = 50000"
    and hl0: "headerList sm3 = map nodeOf [1..<50010]"
    by (simp_all add: sm3_def sm_refill_def)
  have hl: "drop 9 (headerList sm3) = map nodeOf [10..<50010]"
    unfolding hl0 by (simp add: drop_map del: upt_rec_numeral)
  have ln: "length (headerList sm3) = 50009" unfolding hl0 by simp
  have hm: "map hash (map nodeOf [10..<50010]) = [10..<50010]"
    by (simp add: nodeOf_def comp_def del: upt_rec_numeral)
  have d: "\<forall>n \<in> set (drop 9 (headerList sm3)). \<not> fst (HaveBlock env_accept (hash n))"
    by (simp add: env_accept_def env0_def)
  have e: "distinct (map hash (drop 9 (headerList sm3)))"
    unfolding hl hm by (rule distinct_upt)
  have f: "set (map hash (drop 9 (headerList sm3))) \<inter> set (requestedBlocks sm3) = {}"
    unfolding hl hm g by (auto simp del: upt_rec_numeral)
  from fetchHeaderBlocks_fresh [OF a b c d e f] obtain sm' where
    r: "fetchHeaderBlocks env_accept sm3 = Inr sm'"
    and l: "length (requestedBlocks sm') =
              length (requestedBlocks sm3) + min (length (headerList sm3) - 9) (max 1 (MaxInvPerMsg sm3))"
    by blast
  have mx: "MaxInvPerMsg sm' = 50000" using fetchHeaderBlocks_frame [OF r] m by simp
  have "length (requestedBlocks sm') = 50009" using l g m ln by (simp del: upt_rec_numeral)
  moreover have "length (requestedBlocks sm_refill) \<le> maxRequestedBlocks sm_refill"
    by (simp add: sm_refill_def maxRequestedBlocks_def)
  moreover have "limitMap 0 (insertKey 9 [1, 2]) 3 = [1, 2]"
    by (simp add: limitMap_def insertKey_def deleteKey_def)
  ultimately show ?thesis using pre r mx by (simp add: maxRequestedBlocks_def)
qed

subsection \<open>Per-peer requests and the global map\<close>

text \<open>
  The containment of the per-peer block requests in the global map, handler by handler.
  The two insertion paths write both maps; the deletions and \<^verbatim>\<open>limitMap\<close> write the global
  map without looking at the other peers, which is where the side conditions come from.
\<close>

lemma set_insertKey [simp]: "set (insertKey h m) = insert h (set m)"
  by (auto simp: insertKey_def)

lemma set_deleteKey [simp]: "set (deleteKey h m) = set m - {h}"
  by (simp add: deleteKey_def)

lemma set_fold_deleteKey: "set (fold deleteKey xs m) = set m - set xs"
  by (induction xs arbitrary: m) auto

lemma containedI:
  "(\<And>p st. peerStates sm p = Some st \<Longrightarrow> set (peerRequestedBlocks st) \<subseteq> set (requestedBlocks sm))
     \<Longrightarrow> contained sm"
  by (simp add: contained_def)

lemma containedD:
  "contained sm \<Longrightarrow> peerStates sm p = Some st \<Longrightarrow> set (peerRequestedBlocks st) \<subseteq> set (requestedBlocks sm)"
  by (simp add: contained_def)

lemma contained_cong:
  "contained sm \<Longrightarrow> peerStates sm' = peerStates sm \<Longrightarrow> requestedBlocks sm' = requestedBlocks sm
     \<Longrightarrow> contained sm'"
  by (simp add: contained_def)

lemma fetchNode_contained:
  assumes "fetchNode e node n gd sm = Inr (n', gd', sm')" and "contained sm"
  shows "contained sm'"
proof (cases "fst (haveInventory e \<lparr>ivType = InvTypeBlock, ivHash = hash node\<rparr>)")
  case True
  then show ?thesis using assms by (simp add: fetchNode_def)
next
  case False
  from assms(1) False obtain sp st where
    sp: "syncPeer sm = Some sp" "peerStates sm sp = Some st"
    and r: "requestedBlocks sm' = insertKey (hash node) (requestedBlocks sm)"
       "peerStates sm' = (peerStates sm)(sp \<mapsto> st\<lparr>peerRequestedBlocks :=
                                         insertKey (hash node) (peerRequestedBlocks st)\<rparr>)"
    by (auto simp: fetchNode_def Let_def split: option.splits)
  show ?thesis
  proof (rule containedI)
    fix p st' assume a: "peerStates sm' p = Some st'"
    show "set (peerRequestedBlocks st') \<subseteq> set (requestedBlocks sm')"
    proof (cases "p = sp")
      case True
      then have "st' = st\<lparr>peerRequestedBlocks := insertKey (hash node) (peerRequestedBlocks st)\<rparr>"
        using a r by simp
      then show ?thesis using containedD [OF assms(2) sp(2)] r by auto
    next
      case False
      then have "peerStates sm p = Some st'" using a r by simp
      then show ?thesis using containedD [OF assms(2)] r by auto
    qed
  qed
qed

lemma fetchLoop_contained:
  "fetchLoop e ns n gd sm = Inr (rest, gd', sm') \<Longrightarrow> contained sm \<Longrightarrow> contained sm'"
proof (induction ns arbitrary: n gd sm)
  case Nil
  then show ?case by simp
next
  case (Cons node ns)
  from Cons.prems(1) obtain n1 gd1 sm1 where
    st: "fetchNode e node n gd sm = Inr (n1, gd1, sm1)"
    by (auto split: sum.splits)
  have c1: "contained sm1" using fetchNode_contained [OF st Cons.prems(2)] .
  show ?case
  proof (cases "n1 \<ge> MaxInvPerMsg sm")
    case True
    with Cons.prems(1) st have "sm' = sm1" by simp
    with c1 show ?thesis by simp
  next
    case False
    with Cons.prems(1) st have "fetchLoop e ns n1 gd1 sm1 = Inr (rest, gd', sm')" by simp
    from Cons.IH [OF this c1] show ?thesis .
  qed
qed

lemma fetchHeaderBlocks_contained:
  assumes "fetchHeaderBlocks e sm = Inr sm'" and "contained sm"
  shows "contained sm'"
proof (cases "startHeader sm")
  case None
  then show ?thesis using assms by (simp add: fetchHeaderBlocks_def)
next
  case (Some r)
  define ns where "ns = (case r of AtIndex i \<Rightarrow> drop i (headerList sm) | Unlinked l \<Rightarrow> l)"
  from assms(1) Some obtain rest gd sm1 where
    loop: "fetchLoop e ns 0 [] sm = Inr (rest, gd, sm1)"
    by (auto simp: fetchHeaderBlocks_def ns_def Let_def split: sum.splits)
  have c1: "contained sm1" using fetchLoop_contained [OF loop assms(2)] .
  have "peerStates sm' = peerStates sm1 \<and> requestedBlocks sm' = requestedBlocks sm1"
    using assms(1) Some loop
    by (auto simp: fetchHeaderBlocks_def ns_def [symmetric] Let_def
             split: if_splits option.splits)
  then show ?thesis using c1 contained_cong by blast
qed

lemma linkHeader_maps:
  "linkHeader p bh sm = Inr (out, sm') \<Longrightarrow>
     peerStates sm' = peerStates sm \<and> requestedBlocks sm' = requestedBlocks sm"
  by (auto simp: linkHeader_def list.case_eq_if Let_def split: option.splits if_splits)

lemma headersLoop_maps:
  "headersLoop p hs sm = Inr (out, sm') \<Longrightarrow>
     peerStates sm' = peerStates sm \<and> requestedBlocks sm' = requestedBlocks sm"
proof (induction hs arbitrary: sm)
  case Nil
  then show ?case by simp
next
  case (Cons bh hs)
  from Cons.prems obtain o1 sm1 where st: "linkHeader p bh sm = Inr (o1, sm1)"
    by (auto split: sum.splits)
  note m = linkHeader_maps [OF st]
  show ?case
  proof (cases o1)
    case None
    with Cons.prems st have "headersLoop p hs sm1 = Inr (out, sm')" by simp
    from Cons.IH [OF this] m show ?thesis by simp
  next
    case (Some x)
    with Cons.prems st have "sm' = sm1" by simp
    with m show ?thesis by simp
  qed
qed

lemma handleHeadersMsg_contained:
  assumes "handleHeadersMsg e p hs sm = Inr sm'" and "contained sm"
  shows "contained sm'"
proof (cases "peerStates sm p = None \<or> \<not> headersFirstMode sm \<or> hs = []")
  case True
  then have "sm' = sm \<or> sm' = emit (Disconnected p) sm"
    using assms(1) by (auto simp: handleHeadersMsg_def split: option.splits if_splits)
  then show ?thesis using assms(2) by (auto intro: contained_cong)
next
  case False
  with assms(1) obtain out sm1 where l: "headersLoop p hs sm = Inr (out, sm1)"
    by (auto simp: handleHeadersMsg_def split: option.splits sum.splits)
  have c1: "contained sm1" using headersLoop_maps [OF l] assms(2) contained_cong by blast
  show ?thesis
  proof (cases out)
    case Returned
    then have "sm' = sm1" using assms(1) False l
      by (auto simp: handleHeadersMsg_def split: option.splits)
    then show ?thesis using c1 by simp
  next
    case ReceivedCheckpoint
    then have f: "fetchHeaderBlocks e (emit SetLastLogTime (listRemoveFront sm1)) = Inr sm'"
      using assms(1) False l
      by (auto simp: handleHeadersMsg_def split: option.splits list.splits)
    have "contained (emit SetLastLogTime (listRemoveFront sm1))"
      using c1 by (rule contained_cong) simp_all
    then show ?thesis using fetchHeaderBlocks_contained [OF f] by simp
  next
    case NoCheckpoint
    then obtain ev where "sm' = emit ev sm1" using assms(1) False l
      by (auto simp: handleHeadersMsg_def split: option.splits)
    then show ?thesis using c1 by (auto intro: contained_cong)
  qed
qed

lemma handleTxMsg_contained:
  assumes "contained sm"
  shows "contained (handleTxMsg e p h sm)"
proof -
  have "requestedBlocks (handleTxMsg e p h sm) = requestedBlocks sm
        \<and> (\<forall>q st'. peerStates (handleTxMsg e p h sm) q = Some st' \<longrightarrow>
              (\<exists>st. peerStates sm q = Some st \<and> peerRequestedBlocks st' = peerRequestedBlocks st))"
    by (auto simp: handleTxMsg_def Let_def updPeer_peerStates split: option.splits if_splits)
  then show ?thesis using assms by (fastforce simp: contained_def)
qed

lemma removeRequest_peerStates:
  "peerStates (removeRequest pp h sm) q =
     (if q = pp then map_option (\<lambda>st. st\<lparr>peerRequestedBlocks := deleteKey h (peerRequestedBlocks st)\<rparr>)
                       (peerStates sm pp)
      else peerStates sm q)"
  by (simp add: removeRequest_def updPeer_peerStates)

lemma removeRequest_contained:
  assumes "contained sm"
    and "\<forall>q st'. q \<noteq> pp \<and> peerStates sm q = Some st' \<longrightarrow> h \<notin> set (peerRequestedBlocks st')"
  shows "contained (removeRequest pp h sm)"
proof (rule containedI)
  fix p st assume a: "peerStates (removeRequest pp h sm) p = Some st"
  show "set (peerRequestedBlocks st) \<subseteq> set (requestedBlocks (removeRequest pp h sm))"
  proof (cases "p = pp")
    case True
    then obtain st0 where s0: "peerStates sm pp = Some st0"
      and "st = st0\<lparr>peerRequestedBlocks := deleteKey h (peerRequestedBlocks st0)\<rparr>"
      using a by (auto simp: removeRequest_peerStates)
    then show ?thesis using containedD [OF assms(1) s0] by auto
  next
    case False
    then have s: "peerStates sm p = Some st" using a by (simp add: removeRequest_peerStates)
    then have "h \<notin> set (peerRequestedBlocks st)" using assms(2) False by blast
    then show ?thesis using containedD [OF assms(1) s] by auto
  qed
qed

lemma headersFirstNext_contained:
  "headersFirstNext e pp b c sm = Inr sm' \<Longrightarrow> contained sm \<Longrightarrow> contained sm'"
  by (auto simp: headersFirstNext_def split: if_splits
           dest: fetchHeaderBlocks_contained checkpointReached_frame intro: contained_cong)

lemma afterProcessBlock_contained:
  assumes "afterProcessBlock e pp b isOrphan c hu bh sm = Inr sm'" and "contained sm"
  shows "contained sm'"
proof -
  from assms(1) obtain hu' bh' sm1 where
    r: "reportBlock e pp b isOrphan hu bh sm = Inr (hu', bh', sm1)"
    and h: "headersFirstNext e pp b c (updatePeerHeight e pp isOrphan hu' bh' sm1) = Inr sm'"
    by (auto simp: afterProcessBlock_def split: sum.splits)
  have "contained sm1" using reportBlock_frame [OF r] assms(2) contained_cong by blast
  then have "contained (updatePeerHeight e pp isOrphan hu' bh' sm1)"
    using updatePeerHeight_frame [of sm1 e pp isOrphan hu' bh'] contained_cong by blast
  then show ?thesis using headersFirstNext_contained [OF h] by simp
qed

lemma handleBlockMsg_contained:
  assumes "handleBlockMsg e pp b sm = Inr sm'" and "contained sm"
    and "\<forall>q st'. q \<noteq> pp \<and> peerStates sm q = Some st' \<longrightarrow> blockHash b \<notin> set (peerRequestedBlocks st')"
  shows "contained sm'"
proof (cases "handleBlockMsg e pp b sm = processPeerBlock e pp b sm")
  case False
  then have "sm' = sm \<or> sm' = emit (Disconnected pp) sm"
    using assms(1) by (auto simp: handleBlockMsg_def split: option.splits if_splits)
  then show ?thesis using assms(2) by (auto intro: contained_cong)
next
  case True
  then have r: "processPeerBlock e pp b sm = Inr sm'" using assms(1) by simp
  from r obtain c fl sm1 where f: "checkFirstNode b sm = Inr (c, fl, sm1)"
    by (auto simp: processPeerBlock_def split: sum.splits)
  from r f obtain rr where cb: "coinbaseHeight e b = Inr rr"
    by (auto simp: processPeerBlock_def Let_def split: sum.splits)
  note fr = checkFirstNode_frame [OF f]
  have c1: "contained sm1" using fr assms(2) contained_cong by blast
  have "\<forall>q st'. q \<noteq> pp \<and> peerStates sm1 q = Some st' \<longrightarrow> blockHash b \<notin> set (peerRequestedBlocks st')"
    using assms(3) fr by simp
  then have c2: "contained (removeRequest pp (blockHash b) sm1)"
    using removeRequest_contained [OF c1] by blast
  define hu where "hu = (case rr of None \<Rightarrow> (0::int32) | Some cbHeight \<Rightarrow> cbHeight)"
  define atCall where "atCall = emit (ProcessBlock (blockHash b) fl hu) (removeRequest pp (blockHash b) sm1)"
  have c3: "contained atCall"
    using c2 unfolding atCall_def by (rule contained_cong) simp_all
  have "sm' = emit (PushRejectMsg pp ''block'' (blockHash b)) atCall
        \<or> (\<exists>o1 bh. afterProcessBlock e pp b o1 c hu bh atCall = Inr sm')"
    using r f cb
    by (auto simp: processPeerBlock_def Let_def hu_def atCall_def split: pbResult.splits if_splits)
  then show ?thesis
  proof
    assume "sm' = emit (PushRejectMsg pp ''block'' (blockHash b)) atCall"
    then show ?thesis using c3 by (auto intro: contained_cong)
  next
    assume "\<exists>o1 bh. afterProcessBlock e pp b o1 c hu bh atCall = Inr sm'"
    then show ?thesis using afterProcessBlock_contained c3 by blast
  qed
qed

lemma startSync_maps:
  "peerStates (startSync e sm) = peerStates sm
   \<and> (requestedBlocks (startSync e sm) = requestedBlocks sm \<or> requestedBlocks (startSync e sm) = [])"
  by (auto simp: startSync_def Let_def split: option.splits)

lemma startSync_clears:
  assumes "syncPeer sm = None" and "\<exists>q \<in> set (peerOrder e). eligible e sm q"
  shows "requestedBlocks (startSync e sm) = [] \<and> peerStates (startSync e sm) = peerStates sm"
proof -
  have "filter (eligible e sm) (peerOrder e) \<noteq> []"
    using assms(2) by (auto simp: filter_empty_conv)
  then have "pickBestPeer e sm (peerOrder e) None \<noteq> None"
    by (cases "filter (eligible e sm) (peerOrder e)") (simp_all add: pickBestPeer_last)
  then obtain bp where "pickBestPeer e sm (peerOrder e) None = Some bp"
    by blast
  then show ?thesis using assms(1)
    by (auto simp: startSync_def Let_def split: option.splits)
qed

lemma handleNewPeerMsg_contained:
  assumes "contained sm" and "syncPeer sm \<noteq> None \<or> \<not> isSyncCandidate e sm p"
  shows "contained (handleNewPeerMsg e p sm)"
proof (cases "shutdown sm")
  case True
  then show ?thesis using assms(1) by (simp add: handleNewPeerMsg_def)
next
  case False
  define sm1 where "sm1 = sm\<lparr>peerStates := (peerStates sm)(p \<mapsto>
                        \<lparr>syncCandidate = isSyncCandidate e sm p, requestQueue = [],
                         peerRequestedTxns = [], peerRequestedBlocks = []\<rparr>)\<rparr>"
  have "handleNewPeerMsg e p sm = sm1"
    using False assms(2) by (auto simp: handleNewPeerMsg_def Let_def sm1_def)
  moreover have "contained sm1"
    using assms(1) by (auto simp: contained_def sm1_def)
  ultimately show ?thesis by simp
qed

lemma handleDonePeerMsg_contained:
  assumes "contained sm" and "syncPeer sm \<noteq> Some p"
    and "\<forall>st q st'. peerStates sm p = Some st \<and> q \<noteq> p \<and> peerStates sm q = Some st'
           \<longrightarrow> set (peerRequestedBlocks st') \<inter> set (peerRequestedBlocks st) = {}"
  shows "contained (handleDonePeerMsg e p sm)"
proof (cases "peerStates sm p")
  case None
  then show ?thesis using assms(1) by (simp add: handleDonePeerMsg_def)
next
  case (Some st)
  have ps: "peerStates (handleDonePeerMsg e p sm) = (peerStates sm)(p := None)"
    and rb: "requestedBlocks (handleDonePeerMsg e p sm)
               = fold deleteKey (peerRequestedBlocks st) (requestedBlocks sm)"
    using Some assms(2) by (simp_all add: handleDonePeerMsg_def Let_def)
  show ?thesis
  proof (rule containedI)
    fix q st' assume "peerStates (handleDonePeerMsg e p sm) q = Some st'"
    then have q: "q \<noteq> p" "peerStates sm q = Some st'"
      using ps by (auto split: if_splits)
    then have "set (peerRequestedBlocks st') \<inter> set (peerRequestedBlocks st) = {}"
      using assms(3) Some by blast
    then show "set (peerRequestedBlocks st') \<subseteq> set (requestedBlocks (handleDonePeerMsg e p sm))"
      using containedD [OF assms(1) q(2)] rb by (auto simp: set_fold_deleteKey)
  qed
qed


lemma queued_refl: "queued p 0 sm sm"
  by (simp add: queued_def split: option.splits)

lemma queued_emit: "queued p 0 sm (emit ev sm)"
  by (simp add: queued_def split: option.splits)

lemma queued_trans:
  assumes "queued p j a b" and "queued p k b c"
  shows "queued p (j + k) a c"
proof (cases "peerStates a p")
  case None
  then show ?thesis using assms by (auto simp: queued_def)
next
  case (Some st)
  then obtain st1 where b: "peerStates b p = Some st1"
    "peerRequestedBlocks st1 = peerRequestedBlocks st"
    "length (requestQueue st1) \<le> length (requestQueue st) + j"
    using assms(1) by (auto simp: queued_def)
  then obtain st2 where c: "peerStates c p = Some st2"
    "peerRequestedBlocks st2 = peerRequestedBlocks st1"
    "length (requestQueue st2) \<le> length (requestQueue st1) + k"
    using assms(2) by (auto simp: queued_def)
  have "requestedBlocks c = requestedBlocks a" "MaxInvPerMsg c = MaxInvPerMsg a"
    "\<forall>q. q \<noteq> p \<longrightarrow> peerStates c q = peerStates a q"
    using assms by (simp_all add: queued_def)
  then show ?thesis using Some b c by (simp add: queued_def)
qed

lemma queued_mono: "queued p j a b \<Longrightarrow> j \<le> k \<Longrightarrow> queued p k a b"
  by (auto simp: queued_def split: option.splits)

lemma queued_contained:
  assumes "queued p k sm sm'" and "contained sm"
  shows "contained sm'"
proof (rule containedI)
  fix q st' assume a: "peerStates sm' q = Some st'"
  have g: "requestedBlocks sm' = requestedBlocks sm" using assms(1) by (simp add: queued_def)
  show "set (peerRequestedBlocks st') \<subseteq> set (requestedBlocks sm')"
  proof (cases "q = p")
    case False
    then have "peerStates sm q = Some st'" using assms(1) a by (simp add: queued_def)
    then show ?thesis using containedD [OF assms(2)] g by simp
  next
    case True
    then obtain st where "peerStates sm p = Some st"
      "peerRequestedBlocks st' = peerRequestedBlocks st"
      using assms(1) a by (auto simp: queued_def split: option.splits)
    then show ?thesis using containedD [OF assms(2)] g by simp
  qed
qed

lemma queued_append:
  "queued p 1 sm (updPeer p (\<lambda>st. st\<lparr>requestQueue := requestQueue st @ [iv]\<rparr>) sm)"
  by (simp add: queued_def updPeer_peerStates split: option.splits)

lemma invStep_queued: "queued p 1 sm (invStep e p lb x sm)"
proof -
  obtain i iv where x: "x = (i, iv)" by (cases x)
  obtain haveInv err where h: "haveInventory e iv = (haveInv, err)"
    by (cases "haveInventory e iv")
  show ?thesis
  proof (cases "peerStates sm p")
    case None
    then show ?thesis
      by (simp add: queued_def invStep_def x h Let_def updPeer_peerStates split: option.splits)
  next
    case (Some st)
    then show ?thesis
      by (simp add: queued_def invStep_def x h Let_def updPeer_peerStates split: option.splits)
  qed
qed

lemma fold_invStep_queued: "queued p (length xs) sm (fold (invStep e p lb) xs sm)"
proof (induction xs arbitrary: sm)
  case Nil
  then show ?case by (simp add: queued_refl)
next
  case (Cons x xs)
  have "queued p (1 + length xs) sm (fold (invStep e p lb) xs (invStep e p lb x sm))"
    using queued_trans [OF invStep_queued Cons.IH] .
  then show ?case by simp
qed


lemma limitMap_room: "length m + 1 \<le> limit \<Longrightarrow> limitMap pk m limit = m"
  by (simp add: limitMap_def)

lemma requestEntry_contained:
  assumes "requestEntry e p iv n gd sm = (n', gd', sm')" and "contained sm"
    and "length (requestedBlocks sm) + 2 \<le> MaxInvPerMsg sm"
  shows "contained sm' \<and> length (requestedBlocks sm') \<le> length (requestedBlocks sm) + 1
         \<and> MaxInvPerMsg sm' = MaxInvPerMsg sm"
proof (cases "ivType iv = InvTypeBlock \<and> ivHash iv \<notin> set (requestedBlocks sm)")
  case True
  have lm: "limitMap (pick e n) (insertKey (ivHash iv) (requestedBlocks sm)) (maxRequestedBlocks sm)
              = ivHash iv # requestedBlocks sm"
    using True assms(3) by (simp add: insertKey_def limitMap_room maxRequestedBlocks_def)
  have sm': "sm' = updPeer p (\<lambda>st. st\<lparr>peerRequestedBlocks :=
                                      insertKey (ivHash iv) (peerRequestedBlocks st)\<rparr>)
                  (sm\<lparr>requestedBlocks := ivHash iv # requestedBlocks sm\<rparr>)"
    using assms(1) True lm by (simp add: requestEntry_def)
  have g: "requestedBlocks sm' = ivHash iv # requestedBlocks sm"
    and mx: "MaxInvPerMsg sm' = MaxInvPerMsg sm"
    by (simp_all add: sm')
  have ps: "\<And>q. peerStates sm' q =
              (if q = p then map_option (\<lambda>st. st\<lparr>peerRequestedBlocks :=
                                      insertKey (ivHash iv) (peerRequestedBlocks st)\<rparr>) (peerStates sm p)
               else peerStates sm q)"
    by (simp add: sm' updPeer_peerStates)
  have "contained sm'"
  proof (rule containedI)
    fix q st' assume a: "peerStates sm' q = Some st'"
    show "set (peerRequestedBlocks st') \<subseteq> set (requestedBlocks sm')"
    proof (cases "q = p")
      case True
      then obtain st where s: "peerStates sm p = Some st"
        and "st' = st\<lparr>peerRequestedBlocks := insertKey (ivHash iv) (peerRequestedBlocks st)\<rparr>"
        using a ps by auto
      then show ?thesis using containedD [OF assms(2) s] g by auto
    next
      case False
      then have "peerStates sm q = Some st'" using a ps by simp
      then show ?thesis using containedD [OF assms(2)] g by auto
    qed
  qed
  then show ?thesis using g mx by simp
next
  case False
  have "requestedBlocks sm' = requestedBlocks sm \<and> MaxInvPerMsg sm' = MaxInvPerMsg sm
        \<and> (\<forall>q st'. peerStates sm' q = Some st' \<longrightarrow>
              (\<exists>st. peerStates sm q = Some st \<and> peerRequestedBlocks st' = peerRequestedBlocks st))"
    using assms(1) False
    by (cases "ivType iv")
       (auto simp: requestEntry_def updPeer_peerStates split: if_splits option.splits)
  then show ?thesis using assms(2) by (fastforce simp: contained_def)
qed

lemma drainQueue_contained:
  assumes "drainQueue e p q n gd sm = (q', gd', sm')" and "contained sm"
    and "length (requestedBlocks sm) + length q + 1 \<le> MaxInvPerMsg sm"
  shows "contained sm'"
  using assms
proof (induction q arbitrary: n gd sm)
  case Nil
  then show ?case by simp
next
  case (Cons iv q)
  obtain n1 gd1 sm1 where st: "requestEntry e p iv n gd sm = (n1, gd1, sm1)"
    by (cases "requestEntry e p iv n gd sm") auto
  have room: "length (requestedBlocks sm) + 2 \<le> MaxInvPerMsg sm"
    using Cons.prems(3) by simp
  note r = requestEntry_contained [OF st Cons.prems(2) room]
  show ?case
  proof (cases "n1 \<ge> MaxInvPerMsg sm")
    case True
    then have "sm' = sm1" using Cons.prems(1) st by simp
    then show ?thesis using r by simp
  next
    case False
    then have d: "drainQueue e p q n1 gd1 sm1 = (q', gd', sm')"
      using Cons.prems(1) st by simp
    have "length (requestedBlocks sm1) + length q + 1 \<le> MaxInvPerMsg sm1"
      using r Cons.prems(3) by simp
    from Cons.IH [OF d _ this] r show ?thesis by simp
  qed
qed

lemma sendGetData_contained:
  assumes "contained sm"
    and "\<forall>st. peerStates sm p = Some st \<longrightarrow>
           length (requestedBlocks sm) + length (requestQueue st) + 1 \<le> MaxInvPerMsg sm"
  shows "contained (sendGetData e p sm)"
proof (cases "peerStates sm p")
  case None
  then show ?thesis using assms(1) by (simp add: sendGetData_def)
next
  case (Some st)
  obtain q' gd sm4 where d: "drainQueue e p (requestQueue st) 0 [] sm = (q', gd, sm4)"
    by (cases "drainQueue e p (requestQueue st) 0 [] sm") auto
  have room: "length (requestedBlocks sm) + length (requestQueue st) + 1 \<le> MaxInvPerMsg sm"
    using assms(2) Some by simp
  have c4: "contained sm4" using drainQueue_contained [OF d assms(1) room] .
  define sm5 where "sm5 = updPeer p (\<lambda>st. st\<lparr>requestQueue := q'\<rparr>) sm4"
  have c5: "contained sm5"
    using c4 by (fastforce simp: contained_def sm5_def updPeer_peerStates split: if_splits)
  have "sendGetData e p sm = sm5 \<or> sendGetData e p sm = emit (QueueMessage p gd) sm5"
    using Some d by (simp add: sendGetData_def Let_def sm5_def)
  then show ?thesis using c5 by (auto intro: contained_cong)
qed

lemma handleInvMsg_contained:
  assumes "contained sm"
    and "\<forall>st. peerStates sm p = Some st \<longrightarrow>
           length (requestedBlocks sm) + length (requestQueue st) + length invVects + 1
             \<le> MaxInvPerMsg sm"
  shows "contained (handleInvMsg e p invVects sm)"
proof (cases "peerStates sm p")
  case None
  then show ?thesis using assms(1) by (simp add: handleInvMsg_def)
next
  case (Some st)
  define lastBlock where "lastBlock = lastBlockIndex invVects"
  define sm1 where "sm1 = noteLastBlock e p invVects lastBlock sm"
  define sm2 where "sm2 = notePeerHeight e p invVects lastBlock sm1"
  define sm3 where "sm3 = fold (invStep e p lastBlock) (zip [0..<length invVects] invVects) sm2"
  have q1: "queued p 0 sm sm1"
    by (auto simp: sm1_def noteLastBlock_def queued_refl queued_emit split: option.splits)
  have q2: "queued p 0 sm1 sm2"
    by (auto simp: sm2_def notePeerHeight_def queued_refl queued_emit split: option.splits)
  have q3: "queued p (length invVects) sm2 sm3"
    using fold_invStep_queued [of p "zip [0..<length invVects] invVects" sm2 e lastBlock]
    by (simp add: sm3_def)
  have q13: "queued p (length invVects) sm sm3"
    using queued_trans [OF queued_trans [OF q1 q2] q3] by simp
  have c1: "contained sm1" using queued_contained [OF q1 assms(1)] .
  have c3: "contained sm3" using queued_contained [OF q13 assms(1)] .
  have h: "handleInvMsg e p invVects sm =
             (if Some p \<noteq> syncPeer sm1 \<and> \<not> current e sm1 then sm1 else sendGetData e p sm3)"
    using Some by (simp add: handleInvMsg_def Let_def lastBlock_def sm1_def sm2_def sm3_def)
  have room: "\<forall>st3. peerStates sm3 p = Some st3 \<longrightarrow>
           length (requestedBlocks sm3) + length (requestQueue st3) + 1 \<le> MaxInvPerMsg sm3"
    using q13 Some assms(2) by (fastforce simp: queued_def)
  show ?thesis
    using h c1 sendGetData_contained [OF c3 room] by simp
qed


text \<open>
  C2 as stated fails at \<^verbatim>\<open>startSync\<close>. Peer 2 owes block 5 and the global map holds it; the
  sync peer 1 leaves; \<^verbatim>\<open>handleDonePeerMsg\<close> calls \<^verbatim>\<open>startSync\<close>, which selects peer 2 and
  replaces the global map by an empty one, while peer 2 still owes block 5.
\<close>

theorem startSync_breaks_containment:
  "contained sm_c \<and> \<not> contained (handleDonePeerMsg env0 1 sm_c)"
proof -
  have a: "contained sm_c"
    by (auto simp: contained_def sm_c_def split: if_splits)
  have r: "requestedBlocks (handleDonePeerMsg env0 1 sm_c) = []"
    and p: "peerStates (handleDonePeerMsg env0 1 sm_c) 2
             = Some \<lparr>syncCandidate = True, requestQueue = [],
                     peerRequestedTxns = [], peerRequestedBlocks = [5]\<rparr>"
    by (simp_all add: handleDonePeerMsg_def sm_c_def env0_def startSync_def emit_def)
  have "\<not> contained (handleDonePeerMsg env0 1 sm_c)"
    using containedD [OF _ p] r by auto
  with a show ?thesis by simp
qed

text \<open>
  C2, amended. From a manager in which every hash a tracked peer owes is in the global
  \<^verbatim>\<open>requestedBlocks\<close> map, the containment still holds
  \<^item> after \<^verbatim>\<open>handleTxMsg\<close> and after \<^verbatim>\<open>handleHeadersMsg\<close> (\<^verbatim>\<open>fetchHeaderBlocks\<close> writes both maps);
  \<^item> after \<^verbatim>\<open>handleBlockMsg\<close>, when no other peer owes the block delivered;
  \<^item> after \<^verbatim>\<open>handleInvMsg\<close>, when the global map has room for the peer's request queue and
    the inventory received, so that \<^verbatim>\<open>limitMap\<close> evicts nothing;
  \<^item> after \<^verbatim>\<open>handleDonePeerMsg\<close>, when the peer that leaves is not the sync peer and owes no
    block that another peer owes;
  \<^item> after \<^verbatim>\<open>handleNewPeerMsg\<close>, when it does not call \<^verbatim>\<open>startSync\<close>.
  \<^verbatim>\<open>startSync\<close>, when there is no sync peer and a candidate is found, leaves an empty global
  map and the per-peer maps as they were.
\<close>

theorem containment_preserved:
  assumes "contained sm"
  shows "contained (handleTxMsg e p h sm)
    \<and> (\<forall>sm'. handleHeadersMsg e p hs sm = Inr sm' \<longrightarrow> contained sm')
    \<and> ((\<forall>q st'. q \<noteq> p \<and> peerStates sm q = Some st' \<longrightarrow> blockHash b \<notin> set (peerRequestedBlocks st'))
         \<longrightarrow> (\<forall>sm'. handleBlockMsg e p b sm = Inr sm' \<longrightarrow> contained sm'))
    \<and> ((\<forall>st. peerStates sm p = Some st \<longrightarrow>
            length (requestedBlocks sm) + length (requestQueue st) + length invVects + 1
              \<le> MaxInvPerMsg sm)
         \<longrightarrow> contained (handleInvMsg e p invVects sm))
    \<and> (syncPeer sm \<noteq> Some p
         \<and> (\<forall>st q st'. peerStates sm p = Some st \<and> q \<noteq> p \<and> peerStates sm q = Some st'
                \<longrightarrow> set (peerRequestedBlocks st') \<inter> set (peerRequestedBlocks st) = {})
         \<longrightarrow> contained (handleDonePeerMsg e p sm))
    \<and> (syncPeer sm \<noteq> None \<or> \<not> isSyncCandidate e sm p \<longrightarrow> contained (handleNewPeerMsg e p sm))
    \<and> (syncPeer sm = None \<and> (\<exists>q \<in> set (peerOrder e). eligible e sm q)
         \<longrightarrow> requestedBlocks (startSync e sm) = [] \<and> peerStates (startSync e sm) = peerStates sm)"
proof -
  have 1: "contained (handleTxMsg e p h sm)"
    using handleTxMsg_contained [OF assms] .
  have 2: "\<forall>sm'. handleHeadersMsg e p hs sm = Inr sm' \<longrightarrow> contained sm'"
    using handleHeadersMsg_contained assms by blast
  have 3: "(\<forall>q st'. q \<noteq> p \<and> peerStates sm q = Some st' \<longrightarrow> blockHash b \<notin> set (peerRequestedBlocks st'))
         \<longrightarrow> (\<forall>sm'. handleBlockMsg e p b sm = Inr sm' \<longrightarrow> contained sm')"
    using handleBlockMsg_contained assms by blast
  have 4: "(\<forall>st. peerStates sm p = Some st \<longrightarrow>
            length (requestedBlocks sm) + length (requestQueue st) + length invVects + 1
              \<le> MaxInvPerMsg sm)
         \<longrightarrow> contained (handleInvMsg e p invVects sm)"
    using handleInvMsg_contained [OF assms] by blast
  have 5: "syncPeer sm \<noteq> Some p
         \<and> (\<forall>st q st'. peerStates sm p = Some st \<and> q \<noteq> p \<and> peerStates sm q = Some st'
                \<longrightarrow> set (peerRequestedBlocks st') \<inter> set (peerRequestedBlocks st) = {})
         \<longrightarrow> contained (handleDonePeerMsg e p sm)"
    using handleDonePeerMsg_contained [OF assms] by blast
  have 6: "syncPeer sm \<noteq> None \<or> \<not> isSyncCandidate e sm p \<longrightarrow> contained (handleNewPeerMsg e p sm)"
    using handleNewPeerMsg_contained [OF assms] by blast
  have 7: "syncPeer sm = None \<and> (\<exists>q \<in> set (peerOrder e). eligible e sm q)
         \<longrightarrow> requestedBlocks (startSync e sm) = [] \<and> peerStates (startSync e sm) = peerStates sm"
    using startSync_clears by blast
  from 1 2 3 4 5 6 7 show ?thesis by blast
qed

theorem containment_preserved_witness:
  "contained sm_c
   \<and> contained (handleTxMsg env0 2 9 sm_c)
   \<and> contained (handleInvMsg env0 2 [\<lparr>ivType = InvTypeBlock, ivHash = 6\<rparr>] sm_c)
   \<and> contained (handleDonePeerMsg env0 2 sm_c)
   \<and> contained (handleNewPeerMsg env0 3 sm_c)
   \<and> (\<exists>sm'. handleBlockMsg env0 2 \<lparr>blockHash = 5, Header = 1, Transactions = [55]\<rparr> sm_c = Inr sm'
          \<and> contained sm')"
proof -
  have a: "contained sm_c"
    by (auto simp: contained_def sm_c_def split: if_splits)
  have room: "\<forall>st. peerStates sm_c 2 = Some st \<longrightarrow>
            length (requestedBlocks sm_c) + length (requestQueue st)
              + length [\<lparr>ivType = InvTypeBlock, ivHash = 6\<rparr>] + 1 \<le> MaxInvPerMsg sm_c"
    by (simp add: sm_c_def)
  have sp: "syncPeer sm_c \<noteq> Some 2" "syncPeer sm_c \<noteq> None"
    by (simp_all add: sm_c_def)
  have dj: "\<forall>st q st'. peerStates sm_c 2 = Some st \<and> q \<noteq> 2 \<and> peerStates sm_c q = Some st'
                \<longrightarrow> set (peerRequestedBlocks st') \<inter> set (peerRequestedBlocks st) = {}"
    by (auto simp: sm_c_def split: if_splits)
  from containment_preserved [OF a, of env0 2 9]
  have "contained (handleTxMsg env0 2 9 sm_c)" by blast
  moreover from containment_preserved [OF a, of env0 2 _ _ _ "[\<lparr>ivType = InvTypeBlock, ivHash = 6\<rparr>]"] room
  have "contained (handleInvMsg env0 2 [\<lparr>ivType = InvTypeBlock, ivHash = 6\<rparr>] sm_c)" by blast
  moreover from containment_preserved [OF a, of env0 2] sp dj
  have "contained (handleDonePeerMsg env0 2 sm_c)" by blast
  moreover from containment_preserved [OF a, of env0 3] sp
  have "contained (handleNewPeerMsg env0 3 sm_c)" by blast
  moreover have "\<exists>sm'. handleBlockMsg env0 2 \<lparr>blockHash = 5, Header = 1, Transactions = [55]\<rparr> sm_c = Inr sm'
          \<and> contained sm'"
  proof -
    have "\<exists>sm'. handleBlockMsg env0 2 \<lparr>blockHash = 5, Header = 1, Transactions = [55]\<rparr> sm_c = Inr sm'"
      by (simp add: handleBlockMsg_def env0_def sm_c_def processPeerBlock_def checkFirstNode_def
            coinbaseHeight_def removeRequest_def updPeer_def deleteKey_def emit_def
            afterProcessBlock_def reportBlock_def updatePeerHeight_def headersFirstNext_def)
    then obtain sm' where
      r: "handleBlockMsg env0 2 \<lparr>blockHash = 5, Header = 1, Transactions = [55]\<rparr> sm_c = Inr sm'"
      by blast
    have o: "\<forall>q st'. q \<noteq> 2 \<and> peerStates sm_c q = Some st'
               \<longrightarrow> blockHash \<lparr>blockHash = 5, Header = 1, Transactions = [55]\<rparr>
                     \<notin> set (peerRequestedBlocks st')"
      by (auto simp: sm_c_def split: if_splits)
    from containment_preserved [OF a, of env0 2 _ _ "\<lparr>blockHash = 5, Header = 1, Transactions = [55]\<rparr>"] o r
    have "contained sm'" by blast
    with r show ?thesis by blast
  qed
  ultimately show ?thesis using a by simp
qed

end
